theory Spec2Isabelle
  imports Complex_Main
begin

section \<open>Arrays, errors and the unchecked accesses of the compiled code\<close>

text \<open>
  Both source files are Cython modules compiled with \<^verbatim>\<open>boundscheck=False\<close>,
  \<^verbatim>\<open>wraparound=False\<close> and \<^verbatim>\<open>cdivision=True\<close>. A \<^verbatim>\<open>double\<close> is modelled as a
  \<^typ>\<open>real\<close> (exact arithmetic, no rounding, no infinities), a C \<^verbatim>\<open>int\<close> as an
  \<^typ>\<open>int\<close> or, where it is a size, as a \<^typ>\<open>nat\<close>: the counts are sizes of arrays
  held in memory, and nothing below depends on the overflow of a 32-bit \<^verbatim>\<open>int\<close>. A
  two-dimensional array is a list of rows.

  An index outside an array is not checked by the compiled code: its behaviour is
  undefined there. The model does not invent a behaviour: it stops with the outcome
  \<open>OutOfBounds\<close>, which is \<^emph>\<open>not\<close> an exception the caller could catch. The exceptions
  the code can really raise are the other constructors.
\<close>

type_synonym array1 = "real list"
type_synonym array2 = "real list list"
type_synonym array3 = "real list list list"

datatype error =
    ValueError
  | IndexError
  | AttributeError
  | TypeError
  | KeyboardInterrupt
  | OutOfBounds

definition raised :: "error \<Rightarrow> bool" where
  "raised e = (e \<noteq> OutOfBounds)"

text \<open>\<^verbatim>\<open>unsigned ndim = 6\<close> and \<^verbatim>\<open>DEF MAX_NBODY = 1024\<close> of new_mockstream.pyx.\<close>

definition ndim :: nat where
  "ndim = 6"

definition MAX_NBODY :: nat where
  "MAX_NBODY = 1024"

text \<open>
  \<^verbatim>\<open>np.empty((rows, ndim))\<close>: a fresh array whose content is whatever the memory held,
  given here by \<open>mem\<close>; a negative dimension raises \<^verbatim>\<open>ValueError\<close>.
\<close>

definition np_empty :: "(nat \<Rightarrow> nat \<Rightarrow> real) \<Rightarrow> int \<Rightarrow> error + array2" where
  "np_empty mem rows =
     (if rows < 0 then Inl ValueError
      else Inr (map (\<lambda>r. map (mem r) [0..<ndim]) [0..<nat rows]))"

text \<open>\<^verbatim>\<open>np.max\<close> raises \<^verbatim>\<open>ValueError\<close> on an empty array; \<^verbatim>\<open>np.sum\<close> of it is 0.\<close>

fun np_max :: "int list \<Rightarrow> error + int" where
  "np_max [] = Inl ValueError"
| "np_max (x # xs) = Inr (fold max xs x)"

definition np_sum :: "int list \<Rightarrow> int" where
  "np_sum xs = sum_list xs"

text \<open>
  The inner loops \<^verbatim>\<open>for k in range(ndim): dst[r, k] = src[s, k]\<close> move one row of
  \<open>ndim\<close> cells. \<open>read_row\<close> is the source side (the row must exist and have \<open>ndim\<close>
  columns), \<open>write_row\<close> the destination side (every destination of the driver is
  allocated with exactly \<open>ndim\<close> columns, so the loop overwrites the whole row).
\<close>

definition read_row :: "array2 \<Rightarrow> int \<Rightarrow> real list option" where
  "read_row a r =
     (if 0 \<le> r \<and> nat r < length a \<and> ndim \<le> length (a ! nat r)
      then Some (take ndim (a ! nat r)) else None)"

definition write_row :: "array2 \<Rightarrow> int \<Rightarrow> real list \<Rightarrow> array2 option" where
  "write_row a r v =
     (if 0 \<le> r \<and> nat r < length a then Some (a[nat r := v]) else None)"

text \<open>
  \<^verbatim>\<open>for j in js: for k in range(ndim): dst[doff + j, k] = src[soff + j, k]\<close>.
  The four copy loops of the driver are instances of it.
\<close>

fun copy_rows :: "array2 \<Rightarrow> int \<Rightarrow> array2 \<Rightarrow> int \<Rightarrow> nat list \<Rightarrow> array2 option" where
  "copy_rows src soff dst doff [] = Some dst"
| "copy_rows src soff dst doff (j # js) =
     (case read_row src (soff + int j) of
        None \<Rightarrow> None
      | Some v \<Rightarrow>
          (case write_row dst (doff + int j) v of
             None \<Rightarrow> None
           | Some dst' \<Rightarrow> copy_rows src soff dst' doff js))"

section \<open>The mock-stream driver (new_mockstream.pyx)\<close>

text \<open>
  An entry of \<^verbatim>\<open>c_particle_potentials\<close>: the address of the potential of a massive
  body, or of the null potential shared by the stream particles.
\<close>

datatype 'p particle_potential = Body_potential 'p | Null_potential

type_synonym 'p potential_table = "nat \<rightharpoonup> 'p particle_potential"

text \<open>The part of the \<^verbatim>\<open>nbody\<close> object the driver reads.\<close>

record 'p nbody =
  w0 :: array2
  particle_potentials :: "'p list"

text \<open>
  What the driver calls and does not define: the two integrator entry points of
  dop853, the signal check of CPython, and the content of freshly allocated memory.
  The combined potential, the frame and the tolerances are the same in every call and
  are part of these functions.

  \<^item> \<open>dop853_helper_save_all args w0 time\<close> is the trajectory array it returns, one
    array of body states for each time.
  \<^item> \<open>dop853_step args t1 t2 dt0 w j k\<close> is the value the call leaves in cell \<open>(j, k)\<close>
    when it is handed the rows \<open>w\<close>: the call works in place on \<open>norbits\<close> rows of
    \<open>ndim\<close> cells and can neither add nor remove a cell.
  \<^item> \<open>PyErr_CheckSignals i\<close> says whether the check made at the end of release step
    \<open>i\<close> finds a pending interrupt. The function is declared
    \<^verbatim>\<open>int PyErr_CheckSignals() except -1\<close> in Cython's cpython.exc, so a pending
    interrupt leaves the driver as the exception of the signal handler.
\<close>

record 'p externals =
  dop853_helper_save_all :: "'p potential_table \<Rightarrow> array2 \<Rightarrow> real list \<Rightarrow> array2 list"
  dop853_step :: "'p potential_table \<Rightarrow> real \<Rightarrow> real \<Rightarrow> real \<Rightarrow> array2 \<Rightarrow> nat \<Rightarrow> nat \<Rightarrow> real"
  PyErr_CheckSignals :: "nat \<Rightarrow> bool"
  fresh_w_tmp :: "nat \<Rightarrow> nat \<Rightarrow> real"
  fresh_w_final :: "nat \<Rightarrow> nat \<Rightarrow> real"

text \<open>
  The calls the driver makes, in order: kept beside the data so that what the
  integrator is asked to advance, and when the signal check happens, can be stated.
  \<open>Step t1 t2 dt0 w\<close> records the rows \<open>w\<close> handed to \<^verbatim>\<open>dop853_step\<close>.
\<close>

datatype event =
    Save_all
  | Step real real real array2
  | Check_signals

definition in_place :: "(array2 \<Rightarrow> nat \<Rightarrow> nat \<Rightarrow> real) \<Rightarrow> array2 \<Rightarrow> array2" where
  "in_place f w = map (\<lambda>j. map (f w j) [0..<ndim]) [0..<length w]"

text \<open>
  The two setup loops that fill the table of \<open>MAX_NBODY\<close> pointers. The table is a C
  array on the stack and the loops do not compare their index with its size.
  \<^verbatim>\<open>nbody.particle_potentials[i]\<close> indexes a Python list, which does check.
\<close>

fun set_body_potentials ::
  "'p list \<Rightarrow> nat list \<Rightarrow> 'p potential_table \<Rightarrow> error + 'p potential_table" where
  "set_body_potentials pp [] tbl = Inr tbl"
| "set_body_potentials pp (i # is) tbl =
     (if length pp \<le> i then Inl IndexError
      else if MAX_NBODY \<le> i then Inl OutOfBounds
      else set_body_potentials pp is (tbl(i \<mapsto> Body_potential (pp ! i))))"

fun set_null_potentials ::
  "nat list \<Rightarrow> 'p potential_table \<Rightarrow> error + 'p potential_table" where
  "set_null_potentials [] tbl = Inr tbl"
| "set_null_potentials (i # is) tbl =
     (if MAX_NBODY \<le> i then Inl OutOfBounds
      else set_null_potentials is (tbl(i \<mapsto> Null_potential)))"

definition setup_potentials ::
  "'p list \<Rightarrow> nat \<Rightarrow> int \<Rightarrow> error + 'p potential_table" where
  "setup_potentials pp nbodies max_nstream =
     (case set_body_potentials pp [0..<nbodies] Map.empty of
        Inl e \<Rightarrow> Inl e
      | Inr tbl \<Rightarrow>
          set_null_potentials [nbodies..<nat (int nbodies + max_nstream)] tbl)"

text \<open>The variables the release loop changes (\<open>n_offset\<close> is the counter \<^verbatim>\<open>n\<close>).\<close>

record loop_state =
  w_tmp :: array2
  w_final :: array2
  n_offset :: int
  calls :: "event list"

text \<open>
  One pass of \<^verbatim>\<open>for i in range(ntimes)\<close>. A failure carries the calls made so far.
  \<^verbatim>\<open>nbodies + nstream[i]\<close> is passed as \<^verbatim>\<open>unsigned norbits\<close>: a negative sum would
  become a huge count, and the integrator would run past the buffer.
\<close>

definition release_step ::
  "'p externals \<Rightarrow> 'p potential_table \<Rightarrow> nat \<Rightarrow> array2 list \<Rightarrow> array2 \<Rightarrow> real list \<Rightarrow>
   int list \<Rightarrow> real \<Rightarrow> real \<Rightarrow> nat \<Rightarrow> loop_state \<Rightarrow> (error \<times> event list) + loop_state" where
  "release_step ext args nbodies nbody_w stream_w0 stream_t1 nstream t2 dt0 i s =
     (if length nbody_w \<le> i then Inl (OutOfBounds, calls s)
      else case copy_rows (nbody_w ! i) 0 (w_tmp s) 0 [0..<nbodies] of
        None \<Rightarrow> Inl (OutOfBounds, calls s)
      | Some w1 \<Rightarrow>
     (if length nstream \<le> i then Inl (OutOfBounds, calls s)
      else case copy_rows stream_w0 (n_offset s) w1 (int nbodies) [0..<nat (nstream ! i)] of
        None \<Rightarrow> Inl (OutOfBounds, calls s)
      | Some w2 \<Rightarrow>
     (if length stream_t1 \<le> i then Inl (OutOfBounds, calls s)
      else if int nbodies + nstream ! i < 0 \<or> int (length w2) < int nbodies + nstream ! i
      then Inl (OutOfBounds, calls s)
      else
        let norbits = nat (int nbodies + nstream ! i);
            t1 = stream_t1 ! i;
            w3 = in_place (dop853_step ext args t1 t2 dt0) (take norbits w2) @ drop norbits w2;
            calls1 = calls s @ [Step t1 t2 dt0 (take norbits w2)]
        in case copy_rows w3 (int nbodies) (w_final s) (int nbodies + n_offset s)
                  [0..<nat (nstream ! i)] of
             None \<Rightarrow> Inl (OutOfBounds, calls1)
           | Some wfin \<Rightarrow>
               if PyErr_CheckSignals ext i
               then Inl (KeyboardInterrupt, calls1 @ [Check_signals])
               else Inr \<lparr>w_tmp = w3, w_final = wfin, n_offset = n_offset s + nstream ! i,
                         calls = calls1 @ [Check_signals]\<rparr>)))"

fun release_loop ::
  "(nat \<Rightarrow> loop_state \<Rightarrow> (error \<times> event list) + loop_state) \<Rightarrow> nat list \<Rightarrow> loop_state \<Rightarrow>
   (error \<times> event list) + loop_state" where
  "release_loop body [] s = Inr s"
| "release_loop body (i # is) s =
     (case body i s of Inl e \<Rightarrow> Inl e | Inr s' \<Rightarrow> release_loop body is s')"

text \<open>
  \<^verbatim>\<open>mockstream_dop853(nbody, time, stream_w0, stream_t1, nstream)\<close>: the calls made
  and either the array returned or the way the run ended. The declarations of the
  \<^verbatim>\<open>cdef\<close> block run in the order written: \<^verbatim>\<open>time[1]\<close> is read first, then the
  maximum and the sum are taken and the two buffers are allocated.
\<close>

definition mockstream_dop853 ::
  "'p externals \<Rightarrow> 'p nbody \<Rightarrow> real list \<Rightarrow> array2 \<Rightarrow> real list \<Rightarrow> int list \<Rightarrow>
   event list \<times> (error + array2)" where
  "mockstream_dop853 ext nb time stream_w0 stream_t1 nstream =
     (let ntimes = length time in
      if ntimes < 2 then ([], Inl OutOfBounds)
      else
        let dt0 = time ! 1 - time ! 0;
            t2 = time ! (ntimes - 1);
            nbodies = length (w0 nb)
        in case np_max nstream of
          Inl e \<Rightarrow> ([], Inl e)
        | Inr max_nstream \<Rightarrow>
        (case np_empty (fresh_w_tmp ext) (int nbodies + max_nstream) of
          Inl e \<Rightarrow> ([], Inl e)
        | Inr w_tmp0 \<Rightarrow>
        (case np_empty (fresh_w_final ext) (int nbodies + np_sum nstream) of
          Inl e \<Rightarrow> ([], Inl e)
        | Inr w_final0 \<Rightarrow>
        (case setup_potentials (particle_potentials nb) nbodies max_nstream of
          Inl e \<Rightarrow> ([], Inl e)
        | Inr args \<Rightarrow>
        (let nbody_w = dop853_helper_save_all ext args (w0 nb) time
         in case release_loop
                   (release_step ext args nbodies nbody_w stream_w0 stream_t1 nstream t2 dt0)
                   [0..<ntimes]
                   \<lparr>w_tmp = w_tmp0, w_final = w_final0, n_offset = 0, calls = [Save_all]\<rparr> of
              Inl (e, cs) \<Rightarrow> (cs, Inl e)
            | Inr s \<Rightarrow>
                (case copy_rows (w_tmp s) 0 (w_final s) 0 [0..<nbodies] of
                   None \<Rightarrow> (calls s, Inl OutOfBounds)
                 | Some out \<Rightarrow> (calls s, Inr out)))))))"

section \<open>Potentials (the Cython potential module)\<close>

text \<open>
  An instance of a subclass of the extension class \<^verbatim>\<open>_CPotential\<close> is the table of
  its four \<^verbatim>\<open>cdef\<close> methods, which calls reach through the base type, and its
  attribute \<^verbatim>\<open>G\<close>:
  \<^item> \<open>value_at q k\<close> is \<^verbatim>\<open>_value(q, k)\<close>;
  \<^item> \<open>gradient_at r grad k\<close> is the buffer \<^verbatim>\<open>_gradient(r, grad, k)\<close> leaves in \<open>grad\<close>,
    or \<open>None\<close> when it writes outside of it; \<open>hessian_at\<close> likewise;
  \<^item> \<open>mass_enclosed_at q Gee k\<close> is \<^verbatim>\<open>_mass_enclosed(q, epsilon, Gee, k)\<close>. The 1 x 3
    array \<open>epsilon\<close> is scratch space that the method fills before it reads it.
\<close>

record cpotential =
  G_attr :: real
  value_at :: "array2 \<Rightarrow> nat \<Rightarrow> real"
  gradient_at :: "array2 \<Rightarrow> array2 \<Rightarrow> nat \<Rightarrow> array2 option"
  hessian_at :: "array2 \<Rightarrow> array3 \<Rightarrow> nat \<Rightarrow> array3 option"
  mass_enclosed_at :: "array2 \<Rightarrow> real \<Rightarrow> nat \<Rightarrow> real"

definition np_zeros1 :: "nat \<Rightarrow> array1" where
  "np_zeros1 m = replicate m 0"

definition np_zeros2 :: "nat \<Rightarrow> nat \<Rightarrow> array2" where
  "np_zeros2 m d = replicate m (np_zeros1 d)"

definition np_zeros3 :: "nat \<Rightarrow> nat \<Rightarrow> array3" where
  "np_zeros3 m d = replicate m (np_zeros2 d d)"

text \<open>\<^verbatim>\<open>q.shape[1]\<close> of a rectangular array given as its rows.\<close>

fun shape1 :: "array2 \<Rightarrow> nat" where
  "shape1 [] = 0"
| "shape1 (row # rows) = length row"

subsection \<open>The methods of the base class\<close>

text \<open>\<^verbatim>\<open>_value\<close> of the base class returns \<^verbatim>\<open>0.\<close>\<close>

definition default_value_at :: "array2 \<Rightarrow> nat \<Rightarrow> real" where
  "default_value_at q k = 0"

text \<open>
  \<^verbatim>\<open>grad[0] = 0.; grad[1] = 0.; grad[2] = 0.\<close> on a two-dimensional buffer: each
  statement sets one whole row, whatever \<open>k\<close> is; rows 0, 1 and 2 must exist.
\<close>

definition default_gradient_at :: "array2 \<Rightarrow> array2 \<Rightarrow> nat \<Rightarrow> array2 option" where
  "default_gradient_at r grad k =
     (if length grad < 3 then None
      else Some (fold (\<lambda>i g. g[i := map (\<lambda>x. 0) (g ! i)]) [0..<3] grad))"

text \<open>
  \<^verbatim>\<open>for i in range(3): for j in range(3): hess[i,j] = 0.\<close> on a three-dimensional
  buffer: row \<open>j\<close> of the matrix of particle \<open>i\<close>.
\<close>

definition default_hessian_at :: "array2 \<Rightarrow> array3 \<Rightarrow> nat \<Rightarrow> array3 option" where
  "default_hessian_at w hess k =
     (if length hess < 3 \<or> \<not> list_all (\<lambda>i. 3 \<le> length (hess ! i)) [0..<3] then None
      else Some (fold (\<lambda>i h. h[i := fold (\<lambda>j m. m[j := map (\<lambda>x. 0) (m ! j)]) [0..<3] (h ! i)])
                   [0..<3] hess))"

text \<open>
  \<^verbatim>\<open>_mass_enclosed\<close> of the base class; \<open>value_fn\<close> is the \<^verbatim>\<open>_value\<close> that
  \<^verbatim>\<open>self._value\<close> reaches. The row \<open>q[k]\<close> must have its three columns. The divisions
  are C divisions of doubles: the model says what they give only for a divisor
  other than 0.
\<close>

definition default_mass_enclosed_at ::
  "(array2 \<Rightarrow> nat \<Rightarrow> real) \<Rightarrow> array2 \<Rightarrow> real \<Rightarrow> nat \<Rightarrow> real" where
  "default_mass_enclosed_at value_fn q Gee k =
     (let h = 0.01;
          r = sqrt (q ! k ! 0 * q ! k ! 0 + q ! k ! 1 * q ! k ! 1 + q ! k ! 2 * q ! k ! 2);
          epsilon1 = [map (\<lambda>j. h * q ! k ! j / r + q ! k ! j) [0..<3]];
          dPhi_dr1 = value_fn epsilon1 0;
          epsilon2 = [map (\<lambda>j. h * q ! k ! j / r - q ! k ! j) [0..<3]];
          dPhi_dr = dPhi_dr1 - value_fn epsilon2 0
      in \<bar>r * r * dPhi_dr / Gee / (2 * h)\<bar>)"

text \<open>
  A subclass that overrides \<^verbatim>\<open>_value\<close>, \<^verbatim>\<open>_gradient\<close> and \<^verbatim>\<open>_hessian\<close> and inherits
  \<^verbatim>\<open>_mass_enclosed\<close>; one that overrides \<^verbatim>\<open>_value\<close> only.
\<close>

definition potential_subclass ::
  "real \<Rightarrow> (array2 \<Rightarrow> nat \<Rightarrow> real) \<Rightarrow> (array2 \<Rightarrow> array2 \<Rightarrow> nat \<Rightarrow> array2 option) \<Rightarrow>
   (array2 \<Rightarrow> array3 \<Rightarrow> nat \<Rightarrow> array3 option) \<Rightarrow> cpotential" where
  "potential_subclass g v gr he =
     \<lparr>G_attr = g, value_at = v, gradient_at = gr, hessian_at = he,
      mass_enclosed_at = default_mass_enclosed_at v\<rparr>"

definition value_only :: "real \<Rightarrow> (array2 \<Rightarrow> nat \<Rightarrow> real) \<Rightarrow> cpotential" where
  "value_only g v = potential_subclass g v default_gradient_at default_hessian_at"

text \<open>The \<^verbatim>\<open>cpdef\<close> methods \<^verbatim>\<open>value\<close>, \<^verbatim>\<open>gradient\<close>, \<^verbatim>\<open>hessian\<close>, \<^verbatim>\<open>mass_enclosed\<close>.\<close>

fun run_hook :: "(nat \<Rightarrow> 'a \<Rightarrow> 'a option) \<Rightarrow> nat list \<Rightarrow> 'a \<Rightarrow> 'a option" where
  "run_hook f [] buf = Some buf"
| "run_hook f (k # ks) buf =
     (case f k buf of None \<Rightarrow> None | Some buf' \<Rightarrow> run_hook f ks buf')"

definition c_value :: "cpotential \<Rightarrow> array2 \<Rightarrow> array1 \<Rightarrow> array1 option" where
  "c_value p q pot =
     (if length pot < length q then None
      else Some (fold (\<lambda>k pt. pt[k := value_at p q k]) [0..<length q] pot))"

definition c_gradient :: "cpotential \<Rightarrow> array2 \<Rightarrow> array2 option" where
  "c_gradient p q =
     run_hook (\<lambda>k grad. gradient_at p q grad k) [0..<length q]
       (np_zeros2 (length q) (shape1 q))"

definition c_hessian :: "cpotential \<Rightarrow> array2 \<Rightarrow> array3 option" where
  "c_hessian p w =
     run_hook (\<lambda>k hess. hessian_at p w hess k) [0..<length w]
       (np_zeros3 (length w) (shape1 w))"

definition c_mass_enclosed :: "cpotential \<Rightarrow> array2 \<Rightarrow> array1" where
  "c_mass_enclosed p q =
     fold (\<lambda>k mass. mass[k := mass_enclosed_at p q (G_attr p) k]) [0..<length q]
       (np_zeros1 (length q))"

subsection \<open>The composite\<close>

text \<open>
  \<^verbatim>\<open>_CCompositePotential\<close>: the Python list of the children, their number, the C
  array \<^verbatim>\<open>PyObject *obj_list[100]\<close> the methods dispatch through, and \<^verbatim>\<open>G\<close>, which
  the constructor leaves at the 0 every C attribute of a new object has.
\<close>

definition obj_list_size :: nat where
  "obj_list_size = 100"

record composite =
  py_instances :: "cpotential list"
  ninstances :: nat
  obj_list :: "nat \<rightharpoonup> cpotential"
  G_comp :: real

text \<open>\<^verbatim>\<open>_more_init\<close>: the loop does not compare \<open>i\<close> with the size of \<open>obj_list\<close>.\<close>

fun more_init :: "nat list \<Rightarrow> composite \<Rightarrow> error + composite" where
  "more_init [] c = Inr c"
| "more_init (i # is) c =
     (if length (py_instances c) \<le> i then Inl IndexError
      else if obj_list_size \<le> i then Inl OutOfBounds
      else more_init is (c\<lparr>obj_list := (obj_list c)(i \<mapsto> py_instances c ! i)\<rparr>))"

definition composite_init :: "cpotential list \<Rightarrow> error + composite" where
  "composite_init instance_list =
     (let c = \<lparr>py_instances = instance_list, ninstances = length instance_list,
               obj_list = Map.empty, G_comp = 0\<rparr>
      in more_init [0..<ninstances c] c)"

text \<open>\<^verbatim>\<open><_CPotential>(self.obj_list[i])\<close>: slot \<open>i\<close> read as a potential.\<close>

definition child :: "composite \<Rightarrow> nat \<Rightarrow> cpotential" where
  "child c i = the (obj_list c i)"

definition composite_value_at :: "composite \<Rightarrow> array2 \<Rightarrow> nat \<Rightarrow> real" where
  "composite_value_at c q k =
     fold (\<lambda>i v. v + value_at (child c i) q k) [0..<ninstances c] 0"

definition composite_gradient_at :: "composite \<Rightarrow> array2 \<Rightarrow> array2 \<Rightarrow> nat \<Rightarrow> array2 option" where
  "composite_gradient_at c r grad k =
     run_hook (\<lambda>i g. gradient_at (child c i) r g k) [0..<ninstances c] grad"

definition composite_hessian_at :: "composite \<Rightarrow> array2 \<Rightarrow> array3 \<Rightarrow> nat \<Rightarrow> array3 option" where
  "composite_hessian_at c w hess k =
     run_hook (\<lambda>i h. hessian_at (child c i) w h k) [0..<ninstances c] hess"

definition composite_mass_enclosed_at :: "composite \<Rightarrow> array2 \<Rightarrow> real \<Rightarrow> nat \<Rightarrow> real" where
  "composite_mass_enclosed_at c q Gee k =
     fold (\<lambda>i mm. mm + mass_enclosed_at (child c i) q Gee k) [0..<ninstances c] 0"

text \<open>The composite seen through the base type, as a child or behind the wrapper.\<close>

definition as_cpotential :: "composite \<Rightarrow> cpotential" where
  "as_cpotential c =
     \<lparr>G_attr = G_comp c, value_at = composite_value_at c,
      gradient_at = composite_gradient_at c, hessian_at = composite_hessian_at c,
      mass_enclosed_at = composite_mass_enclosed_at c\<rparr>"

subsection \<open>The Python wrapper class\<close>

text \<open>
  \<^verbatim>\<open>self.c_instance\<close> is whatever \<^verbatim>\<open>c_class(**parameters)\<close> returned: an object that
  has, or has not, the attributes the wrapper looks up. Calling one either returns
  or raises.
\<close>

record c_instance =
  attr_value :: "(array2 \<Rightarrow> array1 \<Rightarrow> error + array1) option"
  attr_gradient :: "(array2 \<Rightarrow> error + array2) option"
  attr_hessian :: "(array2 \<Rightarrow> error + array3) option"
  attr_mass_enclosed :: "(array2 \<Rightarrow> error + array1) option"

definition or_out_of_bounds :: "'a option \<Rightarrow> error + 'a" where
  "or_out_of_bounds x = (case x of None \<Rightarrow> Inl OutOfBounds | Some y \<Rightarrow> Inr y)"

text \<open>An instance of a subclass of \<^verbatim>\<open>_CPotential\<close> has the four \<^verbatim>\<open>cpdef\<close> methods.\<close>

definition instance_of :: "cpotential \<Rightarrow> c_instance" where
  "instance_of p =
     \<lparr>attr_value = Some (\<lambda>q pot. or_out_of_bounds (c_value p q pot)),
      attr_gradient = Some (\<lambda>q. or_out_of_bounds (c_gradient p q)),
      attr_hessian = Some (\<lambda>q. or_out_of_bounds (c_hessian p q)),
      attr_mass_enclosed = Some (\<lambda>q. Inr (c_mass_enclosed p q))\<rparr>"

text \<open>
  \<^verbatim>\<open>except AttributeError,TypeError:\<close> is the Python 2 form of
  \<^verbatim>\<open>except AttributeError as TypeError:\<close>: it catches \<^verbatim>\<open>AttributeError\<close> alone, from
  the attribute lookup or from inside the call.
\<close>

definition CPotential_gradient :: "c_instance \<Rightarrow> array2 \<Rightarrow> error + array2" where
  "CPotential_gradient ci q =
     (case attr_gradient ci of
        None \<Rightarrow> Inl ValueError
      | Some f \<Rightarrow> (case f q of Inl e \<Rightarrow> if e = AttributeError then Inl ValueError else Inl e
                             | Inr grad \<Rightarrow> Inr grad))"

definition CPotential_hessian :: "c_instance \<Rightarrow> array2 \<Rightarrow> error + array3" where
  "CPotential_hessian ci q =
     (case attr_hessian ci of
        None \<Rightarrow> Inl ValueError
      | Some f \<Rightarrow> (case f q of Inl e \<Rightarrow> if e = AttributeError then Inl ValueError else Inl e
                             | Inr hess \<Rightarrow> Inr hess))"

section \<open>Reference definitions\<close>

subsection \<open>What a valid call does, step by step\<close>

text \<open>
  The counter \<^verbatim>\<open>n\<close> when release step \<open>i\<close> begins, the table the setup loops build,
  the trajectory phase 1 records, the rows release step \<open>i\<close> puts at the head of the
  working buffer (the massive bodies at time \<open>i\<close>, then the particles released at \<open>i\<close>),
  the call that hands them to the integrator, and what the integrator leaves there.
\<close>

definition released_before :: "int list \<Rightarrow> nat \<Rightarrow> nat" where
  "released_before nstream i = nat (sum_list (take i nstream))"

definition potential_table_of :: "'p nbody \<Rightarrow> int list \<Rightarrow> 'p potential_table" where
  "potential_table_of nb nstream =
     (\<lambda>i. if i < length (w0 nb) then Some (Body_potential (particle_potentials nb ! i))
          else if i < nat (int (length (w0 nb)) + Max (set nstream)) then Some Null_potential
          else None)"

definition trajectory :: "'p externals \<Rightarrow> 'p nbody \<Rightarrow> real list \<Rightarrow> int list \<Rightarrow> array2 list" where
  "trajectory ext nb time nstream =
     dop853_helper_save_all ext (potential_table_of nb nstream) (w0 nb) time"

definition ensemble ::
  "'p externals \<Rightarrow> 'p nbody \<Rightarrow> real list \<Rightarrow> array2 \<Rightarrow> int list \<Rightarrow> nat \<Rightarrow> array2" where
  "ensemble ext nb time stream_w0 nstream i =
     trajectory ext nb time nstream ! i @
     take (nat (nstream ! i)) (drop (released_before nstream i) stream_w0)"

definition step_call ::
  "'p externals \<Rightarrow> 'p nbody \<Rightarrow> real list \<Rightarrow> array2 \<Rightarrow> real list \<Rightarrow> int list \<Rightarrow> nat \<Rightarrow> event" where
  "step_call ext nb time stream_w0 stream_t1 nstream i =
     Step (stream_t1 ! i) (time ! (length time - 1)) (time ! 1 - time ! 0)
       (ensemble ext nb time stream_w0 nstream i)"

definition advanced ::
  "'p externals \<Rightarrow> 'p nbody \<Rightarrow> real list \<Rightarrow> array2 \<Rightarrow> real list \<Rightarrow> int list \<Rightarrow> nat \<Rightarrow> array2" where
  "advanced ext nb time stream_w0 stream_t1 nstream i =
     in_place
       (dop853_step ext (potential_table_of nb nstream) (stream_t1 ! i)
          (time ! (length time - 1)) (time ! 1 - time ! 0))
       (ensemble ext nb time stream_w0 nstream i)"

text \<open>
  The calls of a run that went through the release steps below \<open>k\<close>, and the array a
  complete run returns: the rows of the massive bodies as the last release step left
  them, then the released particles of each step in turn.
\<close>

definition calls_through ::
  "'p externals \<Rightarrow> 'p nbody \<Rightarrow> real list \<Rightarrow> array2 \<Rightarrow> real list \<Rightarrow> int list \<Rightarrow> nat \<Rightarrow> event list" where
  "calls_through ext nb time stream_w0 stream_t1 nstream k =
     Save_all #
     concat (map (\<lambda>i. [step_call ext nb time stream_w0 stream_t1 nstream i, Check_signals]) [0..<k])"

definition expected_output ::
  "'p externals \<Rightarrow> 'p nbody \<Rightarrow> real list \<Rightarrow> array2 \<Rightarrow> real list \<Rightarrow> int list \<Rightarrow> array2" where
  "expected_output ext nb time stream_w0 stream_t1 nstream =
     take (length (w0 nb)) (advanced ext nb time stream_w0 stream_t1 nstream (length time - 1)) @
     concat (map (\<lambda>i. drop (length (w0 nb)) (advanced ext nb time stream_w0 stream_t1 nstream i))
               [0..<length time])"

text \<open>
  A call the driver is written for: at least two times; one release count for each
  time, none negative; a release time for each; a potential for each massive body; a
  table large enough; initial conditions of six columns for all released particles;
  and a helper that returns an array of shape \<open>(ntimes, nbodies, ndim)\<close>.
\<close>

definition valid_call ::
  "'p externals \<Rightarrow> 'p nbody \<Rightarrow> real list \<Rightarrow> array2 \<Rightarrow> real list \<Rightarrow> int list \<Rightarrow> bool" where
  "valid_call ext nb time stream_w0 stream_t1 nstream \<longleftrightarrow>
     2 \<le> length time \<and> length nstream = length time \<and> length time \<le> length stream_t1 \<and>
     (\<forall>c\<in>set nstream. 0 \<le> c) \<and>
     length (w0 nb) \<le> length (particle_potentials nb) \<and>
     int (length (w0 nb)) + Max (set nstream) \<le> int MAX_NBODY \<and>
     nat (sum_list nstream) \<le> length stream_w0 \<and>
     (\<forall>r\<in>set stream_w0. length r = ndim) \<and>
     length (trajectory ext nb time nstream) = length time \<and>
     (\<forall>a\<in>set (trajectory ext nb time nstream).
        length a = length (w0 nb) \<and> (\<forall>r\<in>set a. length r = ndim))"



subsection \<open>The estimator and the sums, in the words of the specification\<close>

text \<open>
  The enclosed mass as the specification words it: a centred difference along the
  radial unit vector through the query point, with the step \<open>h\<close> equal to 1% of the
  radius.
\<close>

definition mass_enclosed_spec ::
  "(array2 \<Rightarrow> nat \<Rightarrow> real) \<Rightarrow> array2 \<Rightarrow> real \<Rightarrow> nat \<Rightarrow> real" where
  "mass_enclosed_spec value_fn q Gee k =
     (let r = sqrt (q ! k ! 0 * q ! k ! 0 + q ! k ! 1 * q ! k ! 1 + q ! k ! 2 * q ! k ! 2);
          h = 0.01 * r;
          outer = [map (\<lambda>j. q ! k ! j + h * (q ! k ! j / r)) [0..<3]];
          inner = [map (\<lambda>j. q ! k ! j - h * (q ! k ! j / r)) [0..<3]]
      in \<bar>r * r * (value_fn outer 0 - value_fn inner 0) / (2 * h) / Gee\<bar>)"

text \<open>The elementwise sum of the outputs of several potentials.\<close>

definition sum1 :: "nat \<Rightarrow> array1 list \<Rightarrow> array1" where
  "sum1 m outs = map (\<lambda>k. sum_list (map (\<lambda>out. out ! k) outs)) [0..<m]"

definition sum2 :: "nat \<Rightarrow> nat \<Rightarrow> array2 list \<Rightarrow> array2" where
  "sum2 m d outs =
     map (\<lambda>k. map (\<lambda>j. sum_list (map (\<lambda>out. out ! k ! j) outs)) [0..<d]) [0..<m]"

definition sum3 :: "nat \<Rightarrow> nat \<Rightarrow> array3 list \<Rightarrow> array3" where
  "sum3 m d outs =
     map (\<lambda>k. map (\<lambda>i. map (\<lambda>j. sum_list (map (\<lambda>out. out ! k ! i ! j) outs)) [0..<d]) [0..<d])
       [0..<m]"

subsection \<open>The discipline of the hooks\<close>

text \<open>
  The composite hands one buffer to the hooks of all its children. What it relies on:
  a hook adds the contribution of its potential to row \<open>k\<close> of the buffer
  (\<^verbatim>\<open>grad[k,j] += ...\<close>) and leaves the other rows as they are.
\<close>

definition add_row :: "array2 \<Rightarrow> nat \<Rightarrow> (nat \<Rightarrow> real) \<Rightarrow> array2" where
  "add_row buf k d = buf[k := map (\<lambda>j. buf ! k ! j + d j) [0..<length (buf ! k)]]"

definition add_matrix :: "array3 \<Rightarrow> nat \<Rightarrow> (nat \<Rightarrow> nat \<Rightarrow> real) \<Rightarrow> array3" where
  "add_matrix buf k d =
     buf[k := map (\<lambda>i. map (\<lambda>j. buf ! k ! i ! j + d i j) [0..<length (buf ! k ! i)])
                [0..<length (buf ! k)]]"

definition adds_gradient :: "cpotential \<Rightarrow> (array2 \<Rightarrow> nat \<Rightarrow> nat \<Rightarrow> real) \<Rightarrow> bool" where
  "adds_gradient p g \<longleftrightarrow>
     (\<forall>q buf k. k < length buf \<longrightarrow> gradient_at p q buf k = Some (add_row buf k (g q k)))"

definition adds_hessian :: "cpotential \<Rightarrow> (array2 \<Rightarrow> nat \<Rightarrow> nat \<Rightarrow> nat \<Rightarrow> real) \<Rightarrow> bool" where
  "adds_hessian p h \<longleftrightarrow>
     (\<forall>q buf k. k < length buf \<longrightarrow> hessian_at p q buf k = Some (add_matrix buf k (h q k)))"

definition accumulates_gradient :: "cpotential \<Rightarrow> bool" where
  "accumulates_gradient p \<longleftrightarrow> (\<exists>g. adds_gradient p g)"

definition accumulates_hessian :: "cpotential \<Rightarrow> bool" where
  "accumulates_hessian p \<longleftrightarrow> (\<exists>h. adds_hessian p h)"

text \<open>A subclass whose hooks follow the discipline.\<close>

definition accumulating ::
  "real \<Rightarrow> (array2 \<Rightarrow> nat \<Rightarrow> real) \<Rightarrow> (array2 \<Rightarrow> nat \<Rightarrow> nat \<Rightarrow> real) \<Rightarrow>
   (array2 \<Rightarrow> nat \<Rightarrow> nat \<Rightarrow> nat \<Rightarrow> real) \<Rightarrow> cpotential" where
  "accumulating g v dv ddv =
     potential_subclass g v
       (\<lambda>r grad k. if k < length grad then Some (add_row grad k (dv r k)) else None)
       (\<lambda>w hess k. if k < length hess then Some (add_matrix hess k (ddv w k)) else None)"

subsection \<open>Example inputs\<close>

text \<open>
  Potentials: a uniform field along x, the even well \<open>r^4\<close>, the harmonic well
  \<open>(x^2 + y^2 + z^2) / 2\<close> with its gradient and Hessian, and the composite of the
  harmonic well and a potential that overrides \<^verbatim>\<open>_value\<close> only.
\<close>

definition uniform_field :: "array2 \<Rightarrow> nat \<Rightarrow> real" where
  "uniform_field q k = q ! k ! 0"

definition quartic_well :: "array2 \<Rightarrow> nat \<Rightarrow> real" where
  "quartic_well q k =
     (q ! k ! 0 * q ! k ! 0 + q ! k ! 1 * q ! k ! 1 + q ! k ! 2 * q ! k ! 2) ^ 2"

definition three_positions :: array2 where
  "three_positions = [[1, 0, 0], [0, 2, 0], [0, 0, 3]]"

definition harmonic :: cpotential where
  "harmonic =
     accumulating 1
       (\<lambda>q k. (q ! k ! 0 * q ! k ! 0 + q ! k ! 1 * q ! k ! 1 + q ! k ! 2 * q ! k ! 2) / 2)
       (\<lambda>q k j. q ! k ! j)
       (\<lambda>q k i j. if i = j then 1 else 0)"

definition uniform :: cpotential where
  "uniform = accumulating 1 uniform_field (\<lambda>q k j. if j = 0 then 1 else 0) (\<lambda>q k i j. 0)"

definition well_and_void :: composite where
  "well_and_void =
     \<lparr>py_instances = [harmonic, value_only 1 default_value_at], ninstances = 2,
      obj_list = (\<lambda>i. if i < 2 then Some ([harmonic, value_only 1 default_value_at] ! i) else None),
      G_comp = 0\<rparr>"

text \<open>
  Integrators: massive bodies that stay where they are and a stepping call that adds
  the elapsed time to every cell, never interrupted, or interrupted at the check of
  step \<open>i0\<close>. Ensembles: one body, a pair, a thousand bodies at rest.
\<close>

definition drift :: "nat externals" where
  "drift =
     \<lparr>dop853_helper_save_all = (\<lambda>args w time. map (\<lambda>t. w) time),
      dop853_step = (\<lambda>args t1 t2 dt0 w j k. w ! j ! k + (t2 - t1)),
      PyErr_CheckSignals = (\<lambda>i. False),
      fresh_w_tmp = (\<lambda>r c. 0),
      fresh_w_final = (\<lambda>r c. 0)\<rparr>"

definition interrupted_at :: "nat \<Rightarrow> nat externals" where
  "interrupted_at i0 = drift\<lparr>PyErr_CheckSignals := (\<lambda>i. i = i0)\<rparr>"

definition one_body :: "nat nbody" where
  "one_body = \<lparr>w0 = [[1, 2, 3, 4, 5, 6]], particle_potentials = [0]\<rparr>"

definition two_particles :: array2 where
  "two_particles = [[10, 10, 10, 10, 10, 10], [20, 20, 20, 20, 20, 20]]"



section \<open>Properties of the potentials\<close>

lemma upt3: "[0..<3] = [0, 1, 2]"
  by (simp add: upt_rec)

text \<open>
  Claim C4 (the estimator is the centred difference with step 1% of the radius, both
  points on the ray through the query point). The code differs twice. It moves the
  query point by the absolute length 0.01 and divides by 0.02, whatever the radius,
  although its own comment calls \<open>h\<close> a fractional step; and its second point is
  \<open>h r/|r| - q\<close>, the mirror image of the inner point \<open>q - h r/|r|\<close>. At the point
  (2, 0, 0) with G = 1: in the even well only the step matters, and the code returns
  128.0032 where the claim gives 128.0128; in the uniform field the mirrored point
  matters, and the code returns 800 where the claim gives 4.
\<close>

theorem mass_enclosed_step_and_mirror:
  "c_mass_enclosed (value_only 1 quartic_well) [[2, 0, 0]] = [128.0032] \<and>
   mass_enclosed_spec quartic_well [[2, 0, 0]] 1 0 = 128.0128 \<and>
   c_mass_enclosed (value_only 1 uniform_field) [[2, 0, 0]] = [800] \<and>
   mass_enclosed_spec uniform_field [[2, 0, 0]] 1 0 = 4"
proof (intro conjI)
  show "c_mass_enclosed (value_only 1 quartic_well) [[2, 0, 0]] = [128.0032]"
    by (simp add: c_mass_enclosed_def value_only_def potential_subclass_def np_zeros1_def
        default_mass_enclosed_at_def quartic_well_def upt3 power2_eq_square)
  show "mass_enclosed_spec quartic_well [[2, 0, 0]] 1 0 = 128.0128"
    by (simp add: mass_enclosed_spec_def quartic_well_def upt3 power2_eq_square)
  show "c_mass_enclosed (value_only 1 uniform_field) [[2, 0, 0]] = [800]"
    by (simp add: c_mass_enclosed_def value_only_def potential_subclass_def np_zeros1_def
        default_mass_enclosed_at_def uniform_field_def upt3)
  show "mass_enclosed_spec uniform_field [[2, 0, 0]] 1 0 = 4"
    by (simp add: mass_enclosed_spec_def uniform_field_def upt3)
qed

lemma gradient_missing_attribute:
  "attr_gradient ci = None \<Longrightarrow> CPotential_gradient ci q = Inl ValueError"
  by (simp add: CPotential_gradient_def)

lemma hessian_missing_attribute:
  "attr_hessian ci = None \<Longrightarrow> CPotential_hessian ci q = Inl ValueError"
  by (simp add: CPotential_hessian_def)

text \<open>
  Claim C3 (the public gradient and hessian fail with a typed error when the concrete
  potential provides none). The wrapper raises \<^verbatim>\<open>ValueError\<close> only when looking the
  method up fails; every subclass of the extension base class inherits \<^verbatim>\<open>gradient\<close>
  and \<^verbatim>\<open>hessian\<close> together with the hooks that write zeros. For a potential that
  overrides \<^verbatim>\<open>_value\<close> only, at three positions, both calls return arrays of zeros.
\<close>

theorem gradient_of_value_only_is_zero:
  "CPotential_gradient (instance_of (value_only 1 uniform_field)) three_positions =
     Inr [[0, 0, 0], [0, 0, 0], [0, 0, 0]] \<and>
   CPotential_hessian (instance_of (value_only 1 uniform_field)) three_positions =
     Inr [[[0, 0, 0], [0, 0, 0], [0, 0, 0]], [[0, 0, 0], [0, 0, 0], [0, 0, 0]],
          [[0, 0, 0], [0, 0, 0], [0, 0, 0]]]"
proof
  show "CPotential_gradient (instance_of (value_only 1 uniform_field)) three_positions =
     Inr [[0, 0, 0], [0, 0, 0], [0, 0, 0]]"
    by (simp add: CPotential_gradient_def instance_of_def value_only_def potential_subclass_def
        c_gradient_def three_positions_def default_gradient_at_def np_zeros2_def np_zeros1_def
        or_out_of_bounds_def upt3 eval_nat_numeral)
  show "CPotential_hessian (instance_of (value_only 1 uniform_field)) three_positions =
     Inr [[[0, 0, 0], [0, 0, 0], [0, 0, 0]], [[0, 0, 0], [0, 0, 0], [0, 0, 0]],
          [[0, 0, 0], [0, 0, 0], [0, 0, 0]]]"
    by (simp add: CPotential_hessian_def instance_of_def value_only_def potential_subclass_def
        c_hessian_def three_positions_def default_hessian_at_def np_zeros3_def np_zeros2_def
        np_zeros1_def or_out_of_bounds_def upt3 eval_nat_numeral)
qed

section \<open>The two tables of fixed size\<close>

lemma more_init_py_instances:
  "more_init js c = Inr c' \<Longrightarrow> py_instances c' = py_instances c \<and> ninstances c' = ninstances c \<and> G_comp c' = G_comp c"
  by (induction js arbitrary: c) (auto split: if_splits)

lemma more_init_ok:
  "\<forall>i\<in>set js. i < length (py_instances c) \<and> i < obj_list_size \<Longrightarrow>
   more_init js c =
     Inr (c\<lparr>obj_list := (\<lambda>i. if i \<in> set js then Some (py_instances c ! i) else obj_list c i)\<rparr>)"
proof (induction js arbitrary: c)
  case Nil
  then show ?case by simp
next
  case (Cons j js)
  let ?c = "c\<lparr>obj_list := (obj_list c)(j \<mapsto> py_instances c ! j)\<rparr>"
  have "more_init js ?c =
     Inr (?c\<lparr>obj_list := (\<lambda>i. if i \<in> set js then Some (py_instances ?c ! i) else obj_list ?c i)\<rparr>)"
    using Cons.prems by (intro Cons.IH) simp
  moreover have "(\<lambda>i. if i \<in> set js then Some (py_instances ?c ! i) else obj_list ?c i)
       = (\<lambda>i. if i \<in> set (j # js) then Some (py_instances c ! i) else obj_list c i)"
    by (rule ext) simp
  ultimately show ?case using Cons.prems by simp
qed

lemma more_init_overflow:
  "\<forall>i\<in>set js. i < length (py_instances c) \<Longrightarrow> \<exists>i\<in>set js. obj_list_size \<le> i \<Longrightarrow>
   more_init js c = Inl OutOfBounds"
proof (induction js arbitrary: c)
  case Nil
  then show ?case by simp
next
  case (Cons j js)
  show ?case
  proof (cases "obj_list_size \<le> j")
    case True
    then show ?thesis using Cons.prems by simp
  next
    case False
    then have "\<exists>i\<in>set js. obj_list_size \<le> i" using Cons.prems(2) by auto
    then show ?thesis using Cons.prems(1) False by (simp add: Cons.IH)
  qed
qed

lemma composite_init_ok:
  assumes "length ps \<le> obj_list_size"
  shows "composite_init ps =
     Inr \<lparr>py_instances = ps, ninstances = length ps,
          obj_list = (\<lambda>i. if i < length ps then Some (ps ! i) else None), G_comp = 0\<rparr>"
proof -
  let ?c = "\<lparr>py_instances = ps, ninstances = length ps, obj_list = Map.empty, G_comp = 0\<rparr>"
  have "more_init [0..<length ps] ?c =
     Inr (?c\<lparr>obj_list := (\<lambda>i. if i \<in> set [0..<length ps] then Some (py_instances ?c ! i) else obj_list ?c i)\<rparr>)"
    using assms by (intro more_init_ok) auto
  then show ?thesis by (simp add: composite_init_def Let_def cong: if_cong)
qed

lemma composite_init_overflow:
  assumes "obj_list_size < length ps"
  shows "composite_init ps = Inl OutOfBounds"
proof -
  let ?c = "\<lparr>py_instances = ps, ninstances = length ps, obj_list = Map.empty, G_comp = 0\<rparr>"
  have "more_init [0..<length ps] ?c = Inl OutOfBounds"
    using assms by (intro more_init_overflow) (auto intro: bexI [of _ obj_list_size])
  then show ?thesis by (simp add: composite_init_def Let_def)
qed



lemma set_body_potentials_ok:
  "\<forall>i\<in>set js. i < length pp \<and> i < MAX_NBODY \<Longrightarrow>
   set_body_potentials pp js tbl =
     Inr (\<lambda>i. if i \<in> set js then Some (Body_potential (pp ! i)) else tbl i)"
proof (induction js arbitrary: tbl)
  case Nil
  then show ?case by simp
next
  case (Cons j js)
  have "(\<lambda>i. if i \<in> set js then Some (Body_potential (pp ! i))
              else (tbl(j \<mapsto> Body_potential (pp ! j))) i)
      = (\<lambda>i. if i \<in> set (j # js) then Some (Body_potential (pp ! i)) else tbl i)"
    by (rule ext) simp
  then show ?case using Cons by simp
qed

lemma set_null_potentials_ok:
  "\<forall>i\<in>set js. i < MAX_NBODY \<Longrightarrow>
   set_null_potentials js tbl = Inr (\<lambda>i. if i \<in> set js then Some Null_potential else tbl i)"
proof (induction js arbitrary: tbl)
  case Nil
  then show ?case by simp
next
  case (Cons j js)
  have "(\<lambda>i. if i \<in> set js then Some Null_potential else (tbl(j \<mapsto> Null_potential)) i)
      = (\<lambda>i. if i \<in> set (j # js) then Some Null_potential else tbl i)"
    by (rule ext) simp
  then show ?case using Cons by simp
qed



lemma setup_potentials_ok:
  assumes "nbodies \<le> length pp" "0 \<le> mx" "int nbodies + mx \<le> int MAX_NBODY"
  shows "setup_potentials pp nbodies mx =
     Inr (\<lambda>i. if i < nbodies then Some (Body_potential (pp ! i))
              else if i < nat (int nbodies + mx) then Some Null_potential else None)"
proof -
  have 1: "set_body_potentials pp [0..<nbodies] Map.empty =
     Inr (\<lambda>i. if i \<in> set [0..<nbodies] then Some (Body_potential (pp ! i)) else None)"
    using assms by (intro set_body_potentials_ok) auto
  have 2: "set_null_potentials [nbodies..<nat (int nbodies + mx)] tbl =
     Inr (\<lambda>i. if i \<in> set [nbodies..<nat (int nbodies + mx)] then Some Null_potential else tbl i)" for tbl :: "'a potential_table"
    using assms by (intro set_null_potentials_ok) auto
  show ?thesis
    unfolding setup_potentials_def 1 by (simp add: 2) (rule ext, auto)
qed


lemma np_max_eq:
  assumes "xs \<noteq> []"
  shows "np_max xs = Inr (Max (set xs))"
proof (cases xs)
  case Nil
  then show ?thesis using assms by simp
next
  case (Cons a list)
  then show ?thesis using Max.set_eq_fold [of a list] by simp
qed




section \<open>The release loop\<close>

subsection \<open>One release step\<close>

lemma copy_rows_append:
  "copy_rows src so dst dof (xs @ ys) =
     (case copy_rows src so dst dof xs of None \<Rightarrow> None | Some d \<Rightarrow> copy_rows src so d dof ys)"
  by (induction xs arbitrary: dst) (auto split: option.splits)

lemma list_update_middle:
  "(xs @ ys @ z # zs)[length xs + length ys := v] = xs @ ys @ v # zs"
  by (simp add: list_update_append)

lemma copy_rows_upt:
  assumes "s + m \<le> length src" "\<forall>r\<in>set (take m (drop s src)). length r = ndim"
    "d + m \<le> length dst"
  shows "copy_rows src (int s) dst (int d) [0..<m] =
     Some (take d dst @ take m (drop s src) @ drop (d + m) dst)"
  using assms
proof (induction m)
  case 0
  then show ?case by simp
next
  case (Suc m)
  let ?D = "take d dst @ take m (drop s src) @ drop (d + m) dst"
  have sub: "set (take m (drop s src)) \<subseteq> set (take (Suc m) (drop s src))"
    by (rule set_take_subset_set_take) simp
  have IH: "copy_rows src (int s) dst (int d) [0..<m] = Some ?D"
    using Suc.prems sub by (intro Suc.IH) auto
  have sm: "s + m < length src" and dm: "d + m < length dst" using Suc.prems by auto
  have "src ! (s + m) \<in> set (take (Suc m) (drop s src))"
    using sm by (auto simp: in_set_conv_nth intro!: exI [of _ m])
  then have len: "length (src ! (s + m)) = ndim" using Suc.prems(2) by blast
  have rd: "read_row src (int s + int m) = Some (src ! (s + m))"
    using sm len by (simp add: read_row_def nat_add_distrib)
  have lenD: "length ?D = length dst" using Suc.prems by simp
  have wr: "write_row ?D (int d + int m) v = Some (?D[d + m := v])" for v
    using dm lenD by (simp add: write_row_def nat_add_distrib del: length_append)
  have tk: "take (Suc m) (drop s src) = take m (drop s src) @ [src ! (s + m)]"
    using sm by (simp add: take_Suc_conv_app_nth)
  have dr: "drop (d + m) dst = dst ! (d + m) # drop (d + Suc m) dst"
    using dm by (simp add: Cons_nth_drop_Suc)
  have l1: "length (take d dst) = d" using dm by simp
  have l2: "length (take m (drop s src)) = m" using sm by simp
  have upd: "?D[d + m := src ! (s + m)] =
      take d dst @ take (Suc m) (drop s src) @ drop (d + Suc m) dst"
    unfolding tk dr
    using list_update_middle [of "take d dst" "take m (drop s src)" "dst ! (d + m)"
        "drop (d + Suc m) dst" "src ! (s + m)"]
    unfolding l1 l2 by simp
  show ?case
    by (simp only: upt_Suc_append [OF le0] copy_rows_append IH option.case copy_rows.simps rd wr upd)
qed

lemma release_loop_append:
  "release_loop body (xs @ ys) s =
     (case release_loop body xs s of Inl e \<Rightarrow> Inl e | Inr s' \<Rightarrow> release_loop body ys s')"
  by (induction xs arbitrary: s) (auto split: sum.splits)

lemma length_in_place [simp]: "length (in_place f w) = length w"
  by (simp add: in_place_def)

lemma in_place_rows: "r \<in> set (in_place f w) \<Longrightarrow> length r = ndim"
  by (auto simp: in_place_def)

lemma release_step_ok:
  fixes N cn nb :: nat
  assumes nbw: "i < length nbody_w" "length (nbody_w ! i) = nb" "\<forall>r\<in>set (nbody_w ! i). length r = ndim"
    and c: "i < length nstream" "nstream ! i = int cn"
    and t: "i < length stream_t1"
    and sw: "n_offset s = int N" "N + cn \<le> length stream_w0" "\<forall>r\<in>set stream_w0. length r = ndim"
    and wt: "nb + cn \<le> length (w_tmp s)"
    and wf: "nb + N + cn \<le> length (w_final s)"
    and E_def: "E = nbody_w ! i @ take cn (drop N stream_w0)"
    and A_def: "A = in_place (dop853_step ext args (stream_t1 ! i) t2 dt0) E"
  shows "release_step ext args nb nbody_w stream_w0 stream_t1 nstream t2 dt0 i s =
     (if PyErr_CheckSignals ext i
      then Inl (KeyboardInterrupt, calls s @ [Step (stream_t1 ! i) t2 dt0 E, Check_signals])
      else Inr \<lparr>w_tmp = A @ drop (nb + cn) (w_tmp s),
                w_final = take (nb + N) (w_final s) @ drop nb A @ drop (nb + N + cn) (w_final s),
                n_offset = int N + int cn,
                calls = calls s @ [Step (stream_t1 ! i) t2 dt0 E, Check_signals]\<rparr>)"
proof -
  define w1 where "w1 = nbody_w ! i @ drop nb (w_tmp s)"
  define w2 where "w2 = nbody_w ! i @ take cn (drop N stream_w0) @ drop (nb + cn) (w_tmp s)"
  define w3 where "w3 = A @ drop (nb + cn) (w_tmp s)"
  have c1: "copy_rows (nbody_w ! i) 0 (w_tmp s) 0 [0..<nb] = Some w1"
    using copy_rows_upt [of 0 nb "nbody_w ! i" 0 "w_tmp s"] nbw wt by (simp add: w1_def)
  have "copy_rows stream_w0 (int N) w1 (int nb) [0..<cn] =
      Some (take nb w1 @ take cn (drop N stream_w0) @ drop (nb + cn) w1)"
    using sw wt nbw by (intro copy_rows_upt) (auto simp: w1_def dest: in_set_takeD in_set_dropD)
  then have c2: "copy_rows stream_w0 (int N) w1 (int nb) [0..<cn] = Some w2"
    using nbw(2) by (simp add: add.commute w1_def w2_def)
  have lenE: "length E = nb + cn" using nbw(2) sw(2) by (simp add: E_def)
  have lenw2: "length w2 = length (w_tmp s)" using nbw(2) sw(2) wt by (simp add: w2_def)
  have tk: "take (nb + cn) w2 = E" using nbw(2) sw(2) by (simp add: E_def w2_def)
  have dr: "drop (nb + cn) w2 = drop (nb + cn) (w_tmp s)" using nbw(2) sw(2) by (simp add: w2_def)
  have lenA: "length A = nb + cn" by (simp add: A_def lenE)
  have "copy_rows w3 (int nb) (w_final s) (int (nb + N)) [0..<cn] =
      Some (take (nb + N) (w_final s) @ take cn (drop nb w3) @ drop (nb + N + cn) (w_final s))"
    using wf lenA
    by (intro copy_rows_upt) (auto simp: A_def w3_def dest!: in_set_takeD in_set_dropD in_place_rows)
  then have c3: "copy_rows w3 (int nb) (w_final s) (int nb + int N) [0..<cn] =
      Some (take (nb + N) (w_final s) @ drop nb A @ drop (nb + N + cn) (w_final s))"
    using lenA by (simp add: w3_def)
  have nat1: "nat (int nb + int cn) = nb + cn" by simp
  have w3: "in_place (dop853_step ext args (stream_t1 ! i) t2 dt0) E @ drop (nb + cn) (w_tmp s) = w3"
    by (simp add: w3_def A_def)
  have "\<not> int (length w2) < int nb + int cn" using lenw2 wt by simp
  then show ?thesis
    unfolding release_step_def
    using nbw(1) c(1) t
    by (simp add: c1 c(2) sw(1) c2 nat1 tk dr Let_def w3 c3) (simp add: w3_def)
qed

subsection \<open>The steps of a valid call\<close>

lemma released_before_0 [simp]: "released_before nstream 0 = 0"
  by (simp add: released_before_def)

lemma sum_take_nonneg:
  "\<forall>c\<in>set xs. (0::int) \<le> c \<Longrightarrow> 0 \<le> sum_list (take k xs)"
  by (rule sum_list_nonneg) (auto dest: in_set_takeD)

lemma released_before_Suc:
  assumes "\<forall>c\<in>set nstream. 0 \<le> c" "k < length nstream"
  shows "released_before nstream (Suc k) = released_before nstream k + nat (nstream ! k)"
proof -
  have "0 \<le> nstream ! k" using assms by simp
  moreover have "0 \<le> sum_list (take k nstream)" using assms(1) by (rule sum_take_nonneg)
  ultimately show ?thesis
    using assms(2) by (simp add: released_before_def take_Suc_conv_app_nth nat_add_distrib)
qed

lemma released_before_le:
  assumes "\<forall>c\<in>set nstream. 0 \<le> c"
  shows "released_before nstream k \<le> nat (sum_list nstream)"
proof -
  have "sum_list nstream = sum_list (take k nstream) + sum_list (drop k nstream)"
    by (metis append_take_drop_id sum_list_append)
  moreover have "0 \<le> sum_list (drop k nstream)"
    using assms by (intro sum_list_nonneg) (auto dest: in_set_dropD)
  ultimately show ?thesis by (simp add: released_before_def)
qed

lemma released_before_all:
  "length nstream \<le> k \<Longrightarrow> released_before nstream k = nat (sum_list nstream)"
  by (simp add: released_before_def)

lemma length_ensemble:
  assumes "valid_call ext nb time stream_w0 stream_t1 nstream" "i < length time"
  shows "length (ensemble ext nb time stream_w0 nstream i) = length (w0 nb) + nat (nstream ! i)"
proof -
  have nn: "\<forall>c\<in>set nstream. 0 \<le> c" and i: "i < length nstream"
    using assms by (auto simp: valid_call_def)
  have "released_before nstream (Suc i) \<le> length stream_w0"
    using released_before_le [OF nn, of "Suc i"] assms(1) by (simp add: valid_call_def)
  then have "released_before nstream i + nat (nstream ! i) \<le> length stream_w0"
    by (simp add: released_before_Suc [OF nn i])
  moreover have "length (trajectory ext nb time nstream ! i) = length (w0 nb)"
    using assms by (simp add: valid_call_def)
  ultimately show ?thesis by (simp add: ensemble_def)
qed

lemma length_advanced:
  assumes "valid_call ext nb time stream_w0 stream_t1 nstream" "i < length time"
  shows "length (advanced ext nb time stream_w0 stream_t1 nstream i) =
     length (w0 nb) + nat (nstream ! i)"
  using length_ensemble [OF assms] by (simp add: advanced_def)

lemma length_released_rows:
  assumes "valid_call ext nb time stream_w0 stream_t1 nstream" "k \<le> length time"
  shows "length (concat (map (\<lambda>i. drop (length (w0 nb))
            (advanced ext nb time stream_w0 stream_t1 nstream i)) [0..<k])) =
     released_before nstream k"
  using assms(2)
proof (induction k)
  case 0
  then show ?case by simp
next
  case (Suc k)
  have nn: "\<forall>c\<in>set nstream. 0 \<le> c" and k: "k < length nstream"
    using assms(1) Suc.prems by (auto simp: valid_call_def)
  show ?case
    using Suc length_advanced [OF assms(1), of k]
    by (simp add: released_before_Suc [OF nn k])
qed

lemma release_step_valid:
  fixes ext :: "'p externals"
  assumes v: "valid_call ext nb time stream_w0 stream_t1 nstream"
    and kt: "k < length time"
    and n: "n_offset s = int (released_before nstream k)"
    and lwt: "length (w_tmp s) = length (w0 nb) + nat (Max (set nstream))"
    and lwf: "length (w_final s) = length (w0 nb) + nat (sum_list nstream)"
  shows "release_step ext (potential_table_of nb nstream) (length (w0 nb))
           (trajectory ext nb time nstream) stream_w0 stream_t1 nstream
           (time ! (length time - 1)) (time ! 1 - time ! 0) k s =
     (if PyErr_CheckSignals ext k
      then Inl (KeyboardInterrupt,
             calls s @ [step_call ext nb time stream_w0 stream_t1 nstream k, Check_signals])
      else Inr \<lparr>w_tmp = advanced ext nb time stream_w0 stream_t1 nstream k @
                  drop (length (w0 nb) + nat (nstream ! k)) (w_tmp s),
                w_final = take (length (w0 nb) + released_before nstream k) (w_final s) @
                  drop (length (w0 nb)) (advanced ext nb time stream_w0 stream_t1 nstream k) @
                  drop (length (w0 nb) + released_before nstream k + nat (nstream ! k)) (w_final s),
                n_offset = int (released_before nstream k) + int (nat (nstream ! k)),
                calls = calls s @
                  [step_call ext nb time stream_w0 stream_t1 nstream k, Check_signals]\<rparr>)"
  unfolding step_call_def
proof (rule release_step_ok)
  let ?nb = "length (w0 nb)"
  have nn: "\<forall>c\<in>set nstream. 0 \<le> c" and klen: "k < length nstream"
    using v kt by (auto simp: valid_call_def)
  have Ntot: "released_before nstream k + nat (nstream ! k) \<le> nat (sum_list nstream)"
    using released_before_le [OF nn, of "Suc k"] by (simp add: released_before_Suc [OF nn klen])
  have "nstream ! k \<le> Max (set nstream)" using klen by simp
  then have cmax: "nat (nstream ! k) \<le> nat (Max (set nstream))" by simp
  show "k < length (trajectory ext nb time nstream)" using v kt by (simp add: valid_call_def)
  show "length (trajectory ext nb time nstream ! k) = ?nb" using v kt by (simp add: valid_call_def)
  have "trajectory ext nb time nstream ! k \<in> set (trajectory ext nb time nstream)"
    using v kt by (simp add: valid_call_def)
  then show "\<forall>r\<in>set (trajectory ext nb time nstream ! k). length r = ndim"
    using v by (simp add: valid_call_def)
  show "k < length nstream" by (rule klen)
  show "nstream ! k = int (nat (nstream ! k))" using nn klen by simp
  show "k < length stream_t1" using v kt by (simp add: valid_call_def)
  show "n_offset s = int (released_before nstream k)" by (rule n)
  show "released_before nstream k + nat (nstream ! k) \<le> length stream_w0"
    using Ntot v by (simp add: valid_call_def)
  show "\<forall>r\<in>set stream_w0. length r = ndim" using v by (simp add: valid_call_def)
  show "?nb + nat (nstream ! k) \<le> length (w_tmp s)" using lwt cmax by simp
  show "?nb + released_before nstream k + nat (nstream ! k) \<le> length (w_final s)"
    using lwf Ntot by simp
  show "ensemble ext nb time stream_w0 nstream k =
      trajectory ext nb time nstream ! k @
      take (nat (nstream ! k)) (drop (released_before nstream k) stream_w0)"
    by (simp add: ensemble_def)
  show "advanced ext nb time stream_w0 stream_t1 nstream k =
      in_place (dop853_step ext (potential_table_of nb nstream) (stream_t1 ! k)
          (time ! (length time - 1)) (time ! 1 - time ! 0))
        (ensemble ext nb time stream_w0 nstream k)"
    by (simp add: advanced_def)
qed

lemma release_loop_single: "release_loop body [k] s = body k s"
  by (simp split: sum.splits)

lemma release_loop_ok:
  fixes ext :: "'p externals"
  assumes v: "valid_call ext nb time stream_w0 stream_t1 nstream"
    and k: "k \<le> length time"
    and quiet: "\<forall>i<k. \<not> PyErr_CheckSignals ext i"
    and wt0: "length wt0 = length (w0 nb) + nat (Max (set nstream))"
    and wf0: "length wf0 = length (w0 nb) + nat (sum_list nstream)"
  shows "\<exists>wt. release_loop
            (release_step ext (potential_table_of nb nstream) (length (w0 nb))
               (trajectory ext nb time nstream) stream_w0 stream_t1 nstream
               (time ! (length time - 1)) (time ! 1 - time ! 0))
            [0..<k] \<lparr>w_tmp = wt0, w_final = wf0, n_offset = 0, calls = [Save_all]\<rparr> =
          Inr \<lparr>w_tmp = wt,
               w_final = take (length (w0 nb)) wf0 @
                 concat (map (\<lambda>i. drop (length (w0 nb))
                     (advanced ext nb time stream_w0 stream_t1 nstream i)) [0..<k]) @
                 drop (length (w0 nb) + released_before nstream k) wf0,
               n_offset = int (released_before nstream k),
               calls = calls_through ext nb time stream_w0 stream_t1 nstream k\<rparr> \<and>
          length wt = length (w0 nb) + nat (Max (set nstream)) \<and>
          (0 < k \<longrightarrow> take (length (w0 nb)) wt =
             take (length (w0 nb)) (advanced ext nb time stream_w0 stream_t1 nstream (k - 1)))"
  using k quiet
proof (induction k)
  case 0
  then show ?case using wt0 by (simp add: calls_through_def)
next
  case (Suc k)
  let ?nb = "length (w0 nb)"
  let ?body = "release_step ext (potential_table_of nb nstream) ?nb
               (trajectory ext nb time nstream) stream_w0 stream_t1 nstream
               (time ! (length time - 1)) (time ! 1 - time ! 0)"
  define C where "C = concat (map (\<lambda>i. drop ?nb
                     (advanced ext nb time stream_w0 stream_t1 nstream i)) [0..<k])"
  define N where "N = released_before nstream k"
  define cn where "cn = nat (nstream ! k)"
  define E where "E = ensemble ext nb time stream_w0 nstream k"
  define A where "A = advanced ext nb time stream_w0 stream_t1 nstream k"
  have nn: "\<forall>c\<in>set nstream. 0 \<le> c" and klen: "k < length nstream" and kt: "k < length time"
    using v Suc.prems by (auto simp: valid_call_def)
  from Suc obtain wt where
    loop: "release_loop ?body [0..<k] \<lparr>w_tmp = wt0, w_final = wf0, n_offset = 0, calls = [Save_all]\<rparr> =
          Inr \<lparr>w_tmp = wt, w_final = take ?nb wf0 @ C @ drop (?nb + N) wf0,
               n_offset = int N,
               calls = calls_through ext nb time stream_w0 stream_t1 nstream k\<rparr>"
    and lwt: "length wt = ?nb + nat (Max (set nstream))"
    unfolding C_def N_def by force
  define s where "s = \<lparr>w_tmp = wt, w_final = take ?nb wf0 @ C @ drop (?nb + N) wf0,
               n_offset = int N,
               calls = calls_through ext nb time stream_w0 stream_t1 nstream k\<rparr>"
  have lenC: "length C = N"
    unfolding C_def N_def using v kt by (intro length_released_rows) auto
  have NS: "released_before nstream (Suc k) = N + cn"
    unfolding N_def cn_def by (rule released_before_Suc [OF nn klen])
  have Ntot: "N + cn \<le> nat (sum_list nstream)"
    using released_before_le [OF nn, of "Suc k"] NS by simp
  have ck: "nstream ! k = int cn" using nn klen by (simp add: cn_def)
  have "nstream ! k \<le> Max (set nstream)" using klen by simp
  then have cmax: "cn \<le> nat (Max (set nstream))" by (simp add: cn_def)
  have lenF: "length (w_final s) = ?nb + nat (sum_list nstream)"
    using wf0 lenC Ntot by (simp add: s_def)
  have step: "?body k s =
     (if PyErr_CheckSignals ext k
      then Inl (KeyboardInterrupt,
             calls s @ [step_call ext nb time stream_w0 stream_t1 nstream k, Check_signals])
      else Inr \<lparr>w_tmp = A @ drop (?nb + cn) (w_tmp s),
                w_final = take (?nb + N) (w_final s) @ drop ?nb A @ drop (?nb + N + cn) (w_final s),
                n_offset = int N + int cn,
                calls = calls s @ [step_call ext nb time stream_w0 stream_t1 nstream k, Check_signals]\<rparr>)"
    unfolding A_def N_def cn_def
    by (rule release_step_valid [OF v kt]) (use lwt lenF in \<open>simp_all add: s_def N_def\<close>)
  have lenA: "length A = ?nb + cn"
    unfolding A_def cn_def by (rule length_advanced [OF v kt])
  have tkF: "take (?nb + N) (w_final s) = take ?nb wf0 @ C"
    using wf0 lenC by (simp add: s_def)
  have drF: "drop (?nb + N + cn) (w_final s) = drop (?nb + (N + cn)) wf0"
    using wf0 lenC by (simp add: s_def ac_simps)
  have quietk: "\<not> PyErr_CheckSignals ext k" using Suc.prems by simp
  have callsS: "calls s @ [step_call ext nb time stream_w0 stream_t1 nstream k, Check_signals]
      = calls_through ext nb time stream_w0 stream_t1 nstream (Suc k)"
    by (simp add: s_def calls_through_def)
  have CS: "concat (map (\<lambda>i. drop ?nb (advanced ext nb time stream_w0 stream_t1 nstream i)) [0..<Suc k])
      = C @ drop ?nb A"
    by (simp add: C_def A_def)
  have loop': "release_loop ?body [0..<k]
        \<lparr>w_tmp = wt0, w_final = wf0, n_offset = 0, calls = [Save_all]\<rparr> = Inr s"
    using loop by (simp only: s_def)
  have "release_loop ?body [0..<Suc k] \<lparr>w_tmp = wt0, w_final = wf0, n_offset = 0, calls = [Save_all]\<rparr>
      = ?body k s"
    by (simp only: upt_Suc_append [OF le0] release_loop_append loop' sum.case release_loop_single)
  also have "\<dots> = Inr \<lparr>w_tmp = A @ drop (?nb + cn) wt,
               w_final = take ?nb wf0 @ (C @ drop ?nb A) @ drop (?nb + (N + cn)) wf0,
               n_offset = int (N + cn),
               calls = calls_through ext nb time stream_w0 stream_t1 nstream (Suc k)\<rparr>"
    by (simp only: step quietk if_False tkF drF callsS) (simp add: s_def)
  finally have res: "release_loop ?body [0..<Suc k]
        \<lparr>w_tmp = wt0, w_final = wf0, n_offset = 0, calls = [Save_all]\<rparr>
      = Inr \<lparr>w_tmp = A @ drop (?nb + cn) wt,
               w_final = take ?nb wf0 @ (C @ drop ?nb A) @ drop (?nb + (N + cn)) wf0,
               n_offset = int (N + cn),
               calls = calls_through ext nb time stream_w0 stream_t1 nstream (Suc k)\<rparr>" .
  show ?case
    unfolding CS NS
    by (rule exI [of _ "A @ drop (?nb + cn) wt"]) (use res lenA lwt cmax in \<open>simp add: A_def\<close>)
qed

subsection \<open>A whole run\<close>

lemma length_np_empty:
  "0 \<le> m \<Longrightarrow> \<exists>a. np_empty mem m = Inr a \<and> length a = nat m"
  by (simp add: np_empty_def)

lemma valid_call_nonempty:
  "valid_call ext nb time stream_w0 stream_t1 nstream \<Longrightarrow> nstream \<noteq> []"
  by (auto simp: valid_call_def)

lemma valid_call_max_nonneg:
  assumes "valid_call ext nb time stream_w0 stream_t1 nstream"
  shows "0 \<le> Max (set nstream)"
proof -
  have "nstream \<noteq> []" using assms by (rule valid_call_nonempty)
  then obtain c where "c \<in> set nstream" by (cases nstream) auto
  moreover have "0 \<le> c" using assms calculation by (simp add: valid_call_def)
  ultimately show ?thesis by (meson List.finite_set Max_ge order_trans)
qed

lemma valid_call_sum_nonneg:
  "valid_call ext nb time stream_w0 stream_t1 nstream \<Longrightarrow> 0 \<le> sum_list nstream"
  by (simp add: valid_call_def sum_list_nonneg)

text \<open>The state of a valid call when the release loop is entered.\<close>

lemma mockstream_unfold:
  fixes ext :: "'p externals"
  assumes v: "valid_call ext nb time stream_w0 stream_t1 nstream"
  shows "\<exists>wt0 wf0.
      length wt0 = length (w0 nb) + nat (Max (set nstream)) \<and>
      length wf0 = length (w0 nb) + nat (sum_list nstream) \<and>
      mockstream_dop853 ext nb time stream_w0 stream_t1 nstream =
       (case release_loop
               (release_step ext (potential_table_of nb nstream) (length (w0 nb))
                  (trajectory ext nb time nstream) stream_w0 stream_t1 nstream
                  (time ! (length time - 1)) (time ! 1 - time ! 0))
               [0..<length time]
               \<lparr>w_tmp = wt0, w_final = wf0, n_offset = 0, calls = [Save_all]\<rparr> of
          Inl (e, cs) \<Rightarrow> (cs, Inl e)
        | Inr s \<Rightarrow>
            (case copy_rows (w_tmp s) 0 (w_final s) 0 [0..<length (w0 nb)] of
               None \<Rightarrow> (calls s, Inl OutOfBounds)
             | Some out \<Rightarrow> (calls s, Inr out)))"
proof -
  let ?nb = "length (w0 nb)" and ?mx = "Max (set nstream)"
  have mx: "0 \<le> ?mx" using v by (rule valid_call_max_nonneg)
  have sm: "0 \<le> sum_list nstream" using v by (rule valid_call_sum_nonneg)
  have mxeq: "np_max nstream = Inr ?mx"
    using valid_call_nonempty [OF v] by (rule np_max_eq)
  obtain wt0 where wt0: "np_empty (fresh_w_tmp ext) (int ?nb + ?mx) = Inr wt0"
      "length wt0 = nat (int ?nb + ?mx)"
    using length_np_empty [of "int ?nb + ?mx" "fresh_w_tmp ext"] mx by auto
  obtain wf0 where wf0: "np_empty (fresh_w_final ext) (int ?nb + np_sum nstream) = Inr wf0"
      "length wf0 = nat (int ?nb + np_sum nstream)"
    using length_np_empty [of "int ?nb + np_sum nstream" "fresh_w_final ext"] sm
    by (auto simp: np_sum_def)
  have tbl: "setup_potentials (particle_potentials nb) ?nb ?mx = Inr (potential_table_of nb nstream)"
    unfolding potential_table_of_def
    using v mx by (intro setup_potentials_ok) (auto simp: valid_call_def)
  have t: "\<not> length time < 2" using v by (simp add: valid_call_def)
  have "mockstream_dop853 ext nb time stream_w0 stream_t1 nstream =
       (case release_loop
               (release_step ext (potential_table_of nb nstream) (length (w0 nb))
                  (trajectory ext nb time nstream) stream_w0 stream_t1 nstream
                  (time ! (length time - 1)) (time ! 1 - time ! 0))
               [0..<length time]
               \<lparr>w_tmp = wt0, w_final = wf0, n_offset = 0, calls = [Save_all]\<rparr> of
          Inl (e, cs) \<Rightarrow> (cs, Inl e)
        | Inr s \<Rightarrow>
            (case copy_rows (w_tmp s) 0 (w_final s) 0 [0..<length (w0 nb)] of
               None \<Rightarrow> (calls s, Inl OutOfBounds)
             | Some out \<Rightarrow> (calls s, Inr out)))"
    unfolding mockstream_dop853_def Let_def
    by (simp only: t if_False mxeq sum.case wt0(1) wf0(1) tbl trajectory_def)
  moreover have "length wt0 = ?nb + nat ?mx" using wt0(2) mx by (simp add: nat_add_distrib)
  moreover have "length wf0 = ?nb + nat (sum_list nstream)"
    using wf0(2) sm by (simp add: nat_add_distrib np_sum_def)
  ultimately show ?thesis by blast
qed

lemma advanced_rows:
  "r \<in> set (advanced ext nb time stream_w0 stream_t1 nstream i) \<Longrightarrow> length r = ndim"
  unfolding advanced_def by (rule in_place_rows)

lemma mockstream_quiet:
  fixes ext :: "'p externals"
  assumes v: "valid_call ext nb time stream_w0 stream_t1 nstream"
    and quiet: "\<forall>i<length time. \<not> PyErr_CheckSignals ext i"
  shows "mockstream_dop853 ext nb time stream_w0 stream_t1 nstream =
     (calls_through ext nb time stream_w0 stream_t1 nstream (length time),
      Inr (expected_output ext nb time stream_w0 stream_t1 nstream))"
proof -
  let ?nb = "length (w0 nb)"
  let ?adv = "advanced ext nb time stream_w0 stream_t1 nstream"
  define C where "C = concat (map (\<lambda>i. drop ?nb (?adv i)) [0..<length time])"
  from mockstream_unfold [OF v] obtain wt0 wf0 where
    lwt0: "length wt0 = ?nb + nat (Max (set nstream))" and
    lwf0: "length wf0 = ?nb + nat (sum_list nstream)" and
    run: "mockstream_dop853 ext nb time stream_w0 stream_t1 nstream =
       (case release_loop
               (release_step ext (potential_table_of nb nstream) ?nb
                  (trajectory ext nb time nstream) stream_w0 stream_t1 nstream
                  (time ! (length time - 1)) (time ! 1 - time ! 0))
               [0..<length time]
               \<lparr>w_tmp = wt0, w_final = wf0, n_offset = 0, calls = [Save_all]\<rparr> of
          Inl (e, cs) \<Rightarrow> (cs, Inl e)
        | Inr s \<Rightarrow>
            (case copy_rows (w_tmp s) 0 (w_final s) 0 [0..<?nb] of
               None \<Rightarrow> (calls s, Inl OutOfBounds)
             | Some out \<Rightarrow> (calls s, Inr out)))"
    by blast
  have tpos: "0 < length time" using v by (auto simp: valid_call_def)
  have all: "released_before nstream (length time) = nat (sum_list nstream)"
    using v by (intro released_before_all) (simp add: valid_call_def)
  from release_loop_ok [OF v le_refl quiet lwt0 lwf0] tpos obtain wt where
    loop: "release_loop
            (release_step ext (potential_table_of nb nstream) ?nb
               (trajectory ext nb time nstream) stream_w0 stream_t1 nstream
               (time ! (length time - 1)) (time ! 1 - time ! 0))
            [0..<length time] \<lparr>w_tmp = wt0, w_final = wf0, n_offset = 0, calls = [Save_all]\<rparr> =
          Inr \<lparr>w_tmp = wt,
               w_final = take ?nb wf0 @ C @ drop (?nb + nat (sum_list nstream)) wf0,
               n_offset = int (nat (sum_list nstream)),
               calls = calls_through ext nb time stream_w0 stream_t1 nstream (length time)\<rparr>"
    and lwt: "length wt = ?nb + nat (Max (set nstream))"
    and bodies: "take ?nb wt = take ?nb (?adv (length time - 1))"
    unfolding C_def all by blast
  define F where "F = take ?nb wf0 @ C @ drop (?nb + nat (sum_list nstream)) wf0"
  have F: "F = take ?nb wf0 @ C" using lwf0 by (simp add: F_def)
  have lenC: "length C = nat (sum_list nstream)"
    unfolding C_def using length_released_rows [OF v le_refl] all by simp
  have rows: "\<forall>r\<in>set (take ?nb (drop 0 wt)). length r = ndim"
    using bodies by (auto dest!: in_set_takeD advanced_rows)
  have "copy_rows wt (int 0) F (int 0) [0..<?nb] =
      Some (take 0 F @ take ?nb (drop 0 wt) @ drop (0 + ?nb) F)"
    using rows lwt lwf0 by (intro copy_rows_upt) (auto simp: F)
  then have fin: "copy_rows wt 0 F 0 [0..<?nb] = Some (take ?nb (?adv (length time - 1)) @ C)"
    using bodies lwf0 by (simp add: F)
  define s where "s = \<lparr>w_tmp = wt,
               w_final = take ?nb wf0 @ C @ drop (?nb + nat (sum_list nstream)) wf0,
               n_offset = int (nat (sum_list nstream)),
               calls = calls_through ext nb time stream_w0 stream_t1 nstream (length time)\<rparr>"
  have ws: "w_tmp s = wt" "w_final s = F"
      "calls s = calls_through ext nb time stream_w0 stream_t1 nstream (length time)"
    by (simp_all add: s_def F_def)
  show ?thesis
    unfolding run loop s_def [symmetric]
    by (simp add: ws fin expected_output_def C_def)
qed

lemma mockstream_interrupted:
  fixes ext :: "'p externals"
  assumes v: "valid_call ext nb time stream_w0 stream_t1 nstream"
    and i0: "i0 < length time" "PyErr_CheckSignals ext i0"
    and quiet: "\<forall>i<i0. \<not> PyErr_CheckSignals ext i"
  shows "mockstream_dop853 ext nb time stream_w0 stream_t1 nstream =
     (calls_through ext nb time stream_w0 stream_t1 nstream (Suc i0), Inl KeyboardInterrupt)"
proof -
  let ?nb = "length (w0 nb)"
  let ?body = "release_step ext (potential_table_of nb nstream) ?nb
                  (trajectory ext nb time nstream) stream_w0 stream_t1 nstream
                  (time ! (length time - 1)) (time ! 1 - time ! 0)"
  from mockstream_unfold [OF v] obtain wt0 wf0 where
    lwt0: "length wt0 = ?nb + nat (Max (set nstream))" and
    lwf0: "length wf0 = ?nb + nat (sum_list nstream)" and
    run: "mockstream_dop853 ext nb time stream_w0 stream_t1 nstream =
       (case release_loop ?body [0..<length time]
               \<lparr>w_tmp = wt0, w_final = wf0, n_offset = 0, calls = [Save_all]\<rparr> of
          Inl (e, cs) \<Rightarrow> (cs, Inl e)
        | Inr s \<Rightarrow>
            (case copy_rows (w_tmp s) 0 (w_final s) 0 [0..<?nb] of
               None \<Rightarrow> (calls s, Inl OutOfBounds)
             | Some out \<Rightarrow> (calls s, Inr out)))"
    by blast
  have le: "i0 \<le> length time" using i0 by simp
  from release_loop_ok [OF v le quiet lwt0 lwf0] obtain s where
    loop: "release_loop ?body [0..<i0]
        \<lparr>w_tmp = wt0, w_final = wf0, n_offset = 0, calls = [Save_all]\<rparr> = Inr s"
    and s: "length (w_tmp s) = ?nb + nat (Max (set nstream))"
      "n_offset s = int (released_before nstream i0)"
      "calls s = calls_through ext nb time stream_w0 stream_t1 nstream i0"
      "w_final s = take ?nb wf0 @
         concat (map (\<lambda>i. drop ?nb (advanced ext nb time stream_w0 stream_t1 nstream i)) [0..<i0]) @
         drop (?nb + released_before nstream i0) wf0"
    by force
  have nn: "\<forall>c\<in>set nstream. 0 \<le> c" using v by (simp add: valid_call_def)
  have lwf: "length (w_final s) = ?nb + nat (sum_list nstream)"
    using lwf0 length_released_rows [OF v le] released_before_le [OF nn, of i0]
    by (simp add: s(4))
  have step: "?body i0 s =
      Inl (KeyboardInterrupt, calls_through ext nb time stream_w0 stream_t1 nstream (Suc i0))"
    using release_step_valid [OF v i0(1) s(2) s(1) lwf] i0(2)
    by (simp add: s(3) calls_through_def)
  have split: "[0..<length time] = [0..<i0] @ i0 # [Suc i0..<length time]"
    using i0(1) by (metis le_add_diff_inverse less_imp_le_nat upt_add_eq_append upt_conv_Cons zero_le)
  have "release_loop ?body [0..<length time]
        \<lparr>w_tmp = wt0, w_final = wf0, n_offset = 0, calls = [Save_all]\<rparr> =
      Inl (KeyboardInterrupt, calls_through ext nb time stream_w0 stream_t1 nstream (Suc i0))"
    unfolding split release_loop_append loop
    by (simp only: sum.case release_loop.simps step)
  then show ?thesis unfolding run by simp
qed

section \<open>Properties of the driver\<close>



lemma sum_list_all_zero: "\<forall>c\<in>set xs. c = (0::int) \<Longrightarrow> sum_list xs = 0"
  by (induction xs) auto

lemma upt2: "[0..<2] = [0, 1]"
  by (simp add: upt_rec)

lemma valid_example:
  "valid_call drift one_body [0, 1] two_particles [0, 1] [1, 1]"
  by (simp add: valid_call_def drift_def one_body_def two_particles_def trajectory_def
      ndim_def MAX_NBODY_def)

lemma valid_example_zero:
  "valid_call drift one_body [0, 1] [] [0, 1] [0, 0]"
  by (simp add: valid_call_def drift_def one_body_def trajectory_def ndim_def MAX_NBODY_def)

lemma valid_example_interrupted:
  "valid_call (interrupted_at 0) one_body [0, 1] two_particles [0, 1] [1, 1]"
  by (simp add: valid_call_def interrupted_at_def drift_def one_body_def two_particles_def
      trajectory_def ndim_def MAX_NBODY_def)

lemma upt6: "[0..<6] = [0, 1, 2, 3, 4, 5]"
  by (simp add: upt_rec)




text \<open>
  Claim C2 (the driver returns one array of shape \<open>(nbodies + sum(nstream), 6)\<close>: the
  final states of the massive bodies, copied after the loop, then those of the stream
  particles in release order; with no release it has \<open>nbodies\<close> rows). For every
  valid call that is not interrupted.
\<close>

theorem mockstream_output:
  fixes ext :: "'p externals"
  assumes "valid_call ext nb time stream_w0 stream_t1 nstream"
    and "\<forall>i<length time. \<not> PyErr_CheckSignals ext i"
  shows "\<exists>out. snd (mockstream_dop853 ext nb time stream_w0 stream_t1 nstream) = Inr out \<and>
     int (length out) = int (length (w0 nb)) + sum_list nstream \<and>
     (\<forall>r\<in>set out. length r = ndim) \<and>
     take (length (w0 nb)) out =
       take (length (w0 nb)) (advanced ext nb time stream_w0 stream_t1 nstream (length time - 1)) \<and>
     drop (length (w0 nb)) out =
       concat (map (\<lambda>i. drop (length (w0 nb)) (advanced ext nb time stream_w0 stream_t1 nstream i))
                 [0..<length time]) \<and>
     ((\<forall>c\<in>set nstream. c = 0) \<longrightarrow> length out = length (w0 nb))"
proof -
  let ?nb = "length (w0 nb)"
  let ?adv = "advanced ext nb time stream_w0 stream_t1 nstream"
  let ?out = "expected_output ext nb time stream_w0 stream_t1 nstream"
  define C where "C = concat (map (\<lambda>i. drop ?nb (?adv i)) [0..<length time])"
  have out: "?out = take ?nb (?adv (length time - 1)) @ C"
    by (simp add: expected_output_def C_def)
  have last: "length time - 1 < length time" using assms(1) by (auto simp: valid_call_def)
  have sm: "0 \<le> sum_list nstream" using assms(1) by (rule valid_call_sum_nonneg)
  have lenC: "length C = nat (sum_list nstream)"
    unfolding C_def using length_released_rows [OF assms(1) le_refl] assms(1)
    by (simp add: released_before_all valid_call_def)
  have lenB: "length (take ?nb (?adv (length time - 1))) = ?nb"
    using length_advanced [OF assms(1) last] by simp
  have 1: "snd (mockstream_dop853 ext nb time stream_w0 stream_t1 nstream) = Inr ?out"
    by (simp add: mockstream_quiet [OF assms])
  have 2: "int (length ?out) = int ?nb + sum_list nstream"
    using lenB lenC sm by (simp add: out del: length_take)
  have 3: "\<forall>r\<in>set ?out. length r = ndim"
    by (auto simp: out C_def dest!: in_set_takeD in_set_dropD advanced_rows)
  have 4: "take ?nb ?out = take ?nb (?adv (length time - 1))"
    using lenB by (simp add: out del: length_take)
  have 5: "drop ?nb ?out = C"
    using lenB by (simp add: out del: length_take)
  have 6: "(\<forall>c\<in>set nstream. c = 0) \<longrightarrow> length ?out = ?nb"
  proof
    assume "\<forall>c\<in>set nstream. c = 0"
    then have "sum_list nstream = 0" by (rule sum_list_all_zero)
    with 2 show "length ?out = ?nb" by simp
  qed
  show ?thesis
    using 1 2 3 4 5 6 unfolding C_def by blast
qed

theorem mockstream_output_witness:
  "snd (mockstream_dop853 drift one_body [0, 1] two_particles [0, 1] [1, 1]) =
     Inr [[1, 2, 3, 4, 5, 6], [11, 11, 11, 11, 11, 11], [20, 20, 20, 20, 20, 20]] \<and>
   (\<exists>out. snd (mockstream_dop853 drift one_body [0, 1] [] [0, 1] [0, 0]) = Inr out \<and>
      length out = 1)"
proof -
  have q: "\<forall>i<length [0, 1 :: real]. \<not> PyErr_CheckSignals drift i" by (simp add: drift_def)
  from mockstream_output [OF valid_example q] obtain out where
    out: "snd (mockstream_dop853 drift one_body [0, 1] two_particles [0, 1] [1, 1]) = Inr out"
      "take (length (w0 one_body)) out =
        take (length (w0 one_body)) (advanced drift one_body [0, 1] two_particles [0, 1] [1, 1] (length [0, 1 :: real] - 1))"
      "drop (length (w0 one_body)) out =
       concat (map (\<lambda>i. drop (length (w0 one_body)) (advanced drift one_body [0, 1] two_particles [0, 1] [1, 1] i))
                 [0..<length [0, 1 :: real]])"
    by blast
  have "out = take (length (w0 one_body)) out @ drop (length (w0 one_body)) out" by simp
  also have "\<dots> = [[1, 2, 3, 4, 5, 6], [11, 11, 11, 11, 11, 11], [20, 20, 20, 20, 20, 20]]"
    unfolding out(2,3)
    by (simp add: upt2 upt6 advanced_def ensemble_def trajectory_def drift_def one_body_def
        two_particles_def released_before_def in_place_def ndim_def)
  finally have a: "snd (mockstream_dop853 drift one_body [0, 1] two_particles [0, 1] [1, 1]) =
     Inr [[1, 2, 3, 4, 5, 6], [11, 11, 11, 11, 11, 11], [20, 20, 20, 20, 20, 20]]"
    using out(1) by simp
  have b: "\<exists>out. snd (mockstream_dop853 drift one_body [0, 1] [] [0, 1] [0, 0]) = Inr out \<and>
      length out = 1"
    using mockstream_output [OF valid_example_zero q] by (auto simp: one_body_def)
  from a b show ?thesis ..
qed

text \<open>
  Claim C7 (interruption is polled once per release step, between steps, and ends the
  run as a cancellation that is not a data error). In a valid call every stepping call
  is followed by one signal check; at the first check that finds an interrupt the run
  ends with \<open>KeyboardInterrupt\<close>, after the stepping call of that step and before any
  other call.
\<close>

theorem interrupt_between_steps:
  fixes ext :: "'p externals"
  assumes "valid_call ext nb time stream_w0 stream_t1 nstream"
  shows "((\<forall>i<length time. \<not> PyErr_CheckSignals ext i) \<longrightarrow>
        fst (mockstream_dop853 ext nb time stream_w0 stream_t1 nstream) =
          Save_all # concat (map (\<lambda>i. [step_call ext nb time stream_w0 stream_t1 nstream i,
                                        Check_signals]) [0..<length time])) \<and>
     (\<forall>i0<length time. PyErr_CheckSignals ext i0 \<and> (\<forall>i<i0. \<not> PyErr_CheckSignals ext i) \<longrightarrow>
        mockstream_dop853 ext nb time stream_w0 stream_t1 nstream =
          (Save_all # concat (map (\<lambda>i. [step_call ext nb time stream_w0 stream_t1 nstream i,
                                         Check_signals]) [0..<Suc i0]),
           Inl KeyboardInterrupt) \<and>
        raised KeyboardInterrupt \<and> KeyboardInterrupt \<noteq> ValueError \<and>
        KeyboardInterrupt \<noteq> IndexError)"
proof (intro conjI impI allI)
  assume "\<forall>i<length time. \<not> PyErr_CheckSignals ext i"
  then show "fst (mockstream_dop853 ext nb time stream_w0 stream_t1 nstream) =
          Save_all # concat (map (\<lambda>i. [step_call ext nb time stream_w0 stream_t1 nstream i,
                                        Check_signals]) [0..<length time])"
    using mockstream_quiet [OF assms] by (simp add: calls_through_def)
next
  fix i0
  assume "i0 < length time" "PyErr_CheckSignals ext i0 \<and> (\<forall>i<i0. \<not> PyErr_CheckSignals ext i)"
  then show "mockstream_dop853 ext nb time stream_w0 stream_t1 nstream =
          (Save_all # concat (map (\<lambda>i. [step_call ext nb time stream_w0 stream_t1 nstream i,
                                         Check_signals]) [0..<Suc i0]),
           Inl KeyboardInterrupt)"
    using mockstream_interrupted [OF assms, of i0] by (simp add: calls_through_def)
qed (simp_all add: raised_def)

theorem interrupt_between_steps_witness:
  "fst (mockstream_dop853 drift one_body [0, 1] two_particles [0, 1] [1, 1]) =
     [Save_all,
      Step 0 1 1 [[1, 2, 3, 4, 5, 6], [10, 10, 10, 10, 10, 10]], Check_signals,
      Step 1 1 1 [[1, 2, 3, 4, 5, 6], [20, 20, 20, 20, 20, 20]], Check_signals] \<and>
   mockstream_dop853 (interrupted_at 0) one_body [0, 1] two_particles [0, 1] [1, 1] =
     ([Save_all, Step 0 1 1 [[1, 2, 3, 4, 5, 6], [10, 10, 10, 10, 10, 10]], Check_signals],
      Inl KeyboardInterrupt)"
proof -
  have "fst (mockstream_dop853 drift one_body [0, 1] two_particles [0, 1] [1, 1]) =
     [Save_all,
      Step 0 1 1 [[1, 2, 3, 4, 5, 6], [10, 10, 10, 10, 10, 10]], Check_signals,
      Step 1 1 1 [[1, 2, 3, 4, 5, 6], [20, 20, 20, 20, 20, 20]], Check_signals]"
    using interrupt_between_steps [OF valid_example]
    by (simp add: upt2 step_call_def ensemble_def trajectory_def drift_def one_body_def
        two_particles_def released_before_def)
  moreover have "mockstream_dop853 (interrupted_at 0) one_body [0, 1] two_particles [0, 1] [1, 1] =
     ([Save_all, Step 0 1 1 [[1, 2, 3, 4, 5, 6], [10, 10, 10, 10, 10, 10]], Check_signals],
      Inl KeyboardInterrupt)"
    using interrupt_between_steps [OF valid_example_interrupted]
    by (simp add: step_call_def ensemble_def trajectory_def interrupted_at_def drift_def
        one_body_def two_particles_def released_before_def)
  ultimately show ?thesis ..
qed











section \<open>Properties of the composite\<close>

lemma run_hook_append:
  "run_hook f (xs @ ys) b = (case run_hook f xs b of None \<Rightarrow> None | Some b' \<Rightarrow> run_hook f ys b')"
  by (induction xs arbitrary: b) (auto split: option.splits)

lemma run_hook_cong:
  "(\<And>k b. k \<in> set ks \<Longrightarrow> f k b = g k b) \<Longrightarrow> run_hook f ks b = run_hook g ks b"
  by (induction ks arbitrary: b) (auto split: option.splits)

lemma length_add_row [simp]: "length (add_row buf k d) = length buf"
  by (simp add: add_row_def)

lemma length_add_matrix [simp]: "length (add_matrix buf k d) = length buf"
  by (simp add: add_matrix_def)

lemma map_upt_nth1:
  "map (\<lambda>j. map f [0..<n] ! j + d j) [0..<n] = map (\<lambda>j. f j + d j) [0..<n]"
  by (rule map_cong [OF refl]) simp

lemma map_upt_nth2:
  "map (\<lambda>i. map (\<lambda>j. map (\<lambda>i. map (f i) [0..<m i]) [0..<n] ! i ! j + d i j)
              [0..<length (map (\<lambda>i. map (f i) [0..<m i]) [0..<n] ! i)]) [0..<n] =
   map (\<lambda>i. map (\<lambda>j. f i j + d i j) [0..<m i]) [0..<n]"
  by (rule map_cong [OF refl]) (simp add: map_upt_nth1)

lemma add_row_add_row:
  "k < length buf \<Longrightarrow> add_row (add_row buf k d1) k d2 = add_row buf k (\<lambda>j. d1 j + d2 j)"
  by (simp add: add_row_def map_upt_nth1 add.assoc)

lemma add_matrix_add_matrix:
  "k < length buf \<Longrightarrow>
   add_matrix (add_matrix buf k d1) k d2 = add_matrix buf k (\<lambda>i j. d1 i j + d2 i j)"
  by (simp add: add_matrix_def map_upt_nth2 add.assoc)

lemma add_row_zero: "k < length buf \<Longrightarrow> add_row buf k (\<lambda>j. 0) = buf"
  by (simp add: add_row_def map_nth)

lemma add_matrix_zero: "k < length buf \<Longrightarrow> add_matrix buf k (\<lambda>i j. 0) = buf"
proof -
  assume k: "k < length buf"
  have "map (\<lambda>i. map (\<lambda>j. buf ! k ! i ! j) [0..<length (buf ! k ! i)]) [0..<length (buf ! k)]
      = map (\<lambda>i. buf ! k ! i) [0..<length (buf ! k)]"
    by (simp add: map_nth)
  then show ?thesis using k by (simp add: add_matrix_def map_nth)
qed

text \<open>The hooks of the children, run one after the other on the same buffer.\<close>

lemma children_add_rows:
  assumes "\<forall>p\<in>set ps. adds_gradient p (G p)" "k < length buf"
  shows "run_hook (\<lambda>i g. gradient_at (ps ! i) r g k) [0..<length ps] buf =
     Some (add_row buf k (\<lambda>j. sum_list (map (\<lambda>p. G p r k j) ps)))"
  using assms(1)
proof (induction ps rule: rev_induct)
  case Nil
  then show ?case using assms(2) by (simp add: add_row_zero)
next
  case (snoc p ps)
  have IH: "run_hook (\<lambda>i g. gradient_at (ps ! i) r g k) [0..<length ps] buf =
     Some (add_row buf k (\<lambda>j. sum_list (map (\<lambda>p. G p r k j) ps)))"
    using snoc by simp
  have same: "run_hook (\<lambda>i g. gradient_at ((ps @ [p]) ! i) r g k) [0..<length ps] buf =
      run_hook (\<lambda>i g. gradient_at (ps ! i) r g k) [0..<length ps] buf"
    by (rule run_hook_cong) (simp add: nth_append)
  have p: "adds_gradient p (G p)" using snoc.prems by simp
  have last: "gradient_at p r (add_row buf k d) k = Some (add_row buf k (\<lambda>j. d j + G p r k j))" for d
    using p assms(2) by (simp add: adds_gradient_def add_row_add_row)
  show ?case
    by (simp add: run_hook_append same IH last)
qed

lemma children_add_matrices:
  assumes "\<forall>p\<in>set ps. adds_hessian p (H p)" "k < length buf"
  shows "run_hook (\<lambda>i h. hessian_at (ps ! i) w h k) [0..<length ps] buf =
     Some (add_matrix buf k (\<lambda>i j. sum_list (map (\<lambda>p. H p w k i j) ps)))"
  using assms(1)
proof (induction ps rule: rev_induct)
  case Nil
  then show ?case using assms(2) by (simp add: add_matrix_zero)
next
  case (snoc p ps)
  have IH: "run_hook (\<lambda>i h. hessian_at (ps ! i) w h k) [0..<length ps] buf =
     Some (add_matrix buf k (\<lambda>i j. sum_list (map (\<lambda>p. H p w k i j) ps)))"
    using snoc by simp
  have same: "run_hook (\<lambda>i h. hessian_at ((ps @ [p]) ! i) w h k) [0..<length ps] buf =
      run_hook (\<lambda>i h. hessian_at (ps ! i) w h k) [0..<length ps] buf"
    by (rule run_hook_cong) (simp add: nth_append)
  have p: "adds_hessian p (H p)" using snoc.prems by simp
  have last: "hessian_at p w (add_matrix buf k d) k =
      Some (add_matrix buf k (\<lambda>i j. d i j + H p w k i j))" for d
    using p assms(2) by (simp add: adds_hessian_def add_matrix_add_matrix)
  show ?case
    by (simp add: run_hook_append same IH last)
qed

text \<open>A hook that adds, run over all the rows of a buffer.\<close>

lemma rows_added:
  assumes "m \<le> length buf"
  shows "run_hook (\<lambda>k b. Some (add_row b k (g k))) [0..<m] buf =
     Some (map (\<lambda>k. map (\<lambda>j. buf ! k ! j + g k j) [0..<length (buf ! k)]) [0..<m] @ drop m buf)"
  using assms
proof (induction m)
  case 0
  then show ?case by simp
next
  case (Suc m)
  let ?done = "map (\<lambda>k. map (\<lambda>j. buf ! k ! j + g k j) [0..<length (buf ! k)]) [0..<m]"
  have IH: "run_hook (\<lambda>k b. Some (add_row b k (g k))) [0..<m] buf = Some (?done @ drop m buf)"
    using Suc by simp
  have dr: "drop m buf = buf ! m # drop (Suc m) buf"
    using Suc.prems by (simp add: Cons_nth_drop_Suc)
  have len: "length ?done = m" by simp
  have "add_row (?done @ drop m buf) m (g m) =
      ?done @ map (\<lambda>j. buf ! m ! j + g m j) [0..<length (buf ! m)] # drop (Suc m) buf"
    unfolding dr add_row_def
    using list_update_length [of ?done "buf ! m" "drop (Suc m) buf"] nth_append_length [of ?done]
    unfolding len by simp
  then show ?case
    by (simp add: run_hook_append IH)
qed

lemma matrices_added:
  assumes "m \<le> length buf"
  shows "run_hook (\<lambda>k b. Some (add_matrix b k (h k))) [0..<m] buf =
     Some (map (\<lambda>k. map (\<lambda>i. map (\<lambda>j. buf ! k ! i ! j + h k i j) [0..<length (buf ! k ! i)])
                       [0..<length (buf ! k)]) [0..<m] @ drop m buf)"
  using assms
proof (induction m)
  case 0
  then show ?case by simp
next
  case (Suc m)
  let ?done = "map (\<lambda>k. map (\<lambda>i. map (\<lambda>j. buf ! k ! i ! j + h k i j) [0..<length (buf ! k ! i)])
                       [0..<length (buf ! k)]) [0..<m]"
  have IH: "run_hook (\<lambda>k b. Some (add_matrix b k (h k))) [0..<m] buf = Some (?done @ drop m buf)"
    using Suc by simp
  have dr: "drop m buf = buf ! m # drop (Suc m) buf"
    using Suc.prems by (simp add: Cons_nth_drop_Suc)
  have len: "length ?done = m" by simp
  have "add_matrix (?done @ drop m buf) m (h m) =
      ?done @ map (\<lambda>i. map (\<lambda>j. buf ! m ! i ! j + h m i j) [0..<length (buf ! m ! i)])
                [0..<length (buf ! m)] # drop (Suc m) buf"
    unfolding dr add_matrix_def
    using list_update_length [of ?done "buf ! m" "drop (Suc m) buf"] nth_append_length [of ?done]
    unfolding len by simp
  then show ?case
    by (simp add: run_hook_append IH)
qed

lemma run_hook_adds_gradient:
  assumes "adds_gradient p g" "\<forall>k\<in>set ks. k < length b"
  shows "run_hook (\<lambda>k grad. gradient_at p q grad k) ks b =
     run_hook (\<lambda>k b. Some (add_row b k (g q k))) ks b"
  using assms(2)
proof (induction ks arbitrary: b)
  case Nil
  then show ?case by simp
next
  case (Cons k ks)
  then show ?case using assms(1) by (simp add: adds_gradient_def)
qed

lemma run_hook_adds_hessian:
  assumes "adds_hessian p h" "\<forall>k\<in>set ks. k < length b"
  shows "run_hook (\<lambda>k hess. hessian_at p q hess k) ks b =
     run_hook (\<lambda>k b. Some (add_matrix b k (h q k))) ks b"
  using assms(2)
proof (induction ks arbitrary: b)
  case Nil
  then show ?case by simp
next
  case (Cons k ks)
  then show ?case using assms(1) by (simp add: adds_hessian_def)
qed

lemma c_gradient_adds:
  assumes "adds_gradient p g"
  shows "c_gradient p q = Some (map (\<lambda>k. map (\<lambda>j. g q k j) [0..<shape1 q]) [0..<length q])"
proof -
  let ?z = "np_zeros2 (length q) (shape1 q)"
  have lz: "length ?z = length q" by (simp add: np_zeros2_def)
  have "c_gradient p q = run_hook (\<lambda>k b. Some (add_row b k (g q k))) [0..<length q] ?z"
    unfolding c_gradient_def using assms lz by (intro run_hook_adds_gradient) auto
  also have "\<dots> = Some (map (\<lambda>k. map (\<lambda>j. ?z ! k ! j + g q k j) [0..<length (?z ! k)])
                        [0..<length q] @ drop (length q) ?z)"
    using lz by (intro rows_added) simp
  also have "\<dots> = Some (map (\<lambda>k. map (\<lambda>j. g q k j) [0..<shape1 q]) [0..<length q])"
    using lz by (simp add: np_zeros2_def np_zeros1_def cong: map_cong)
  finally show ?thesis .
qed

lemma c_hessian_adds:
  assumes "adds_hessian p h"
  shows "c_hessian p q =
     Some (map (\<lambda>k. map (\<lambda>i. map (\<lambda>j. h q k i j) [0..<shape1 q]) [0..<shape1 q]) [0..<length q])"
proof -
  let ?z = "np_zeros3 (length q) (shape1 q)"
  have lz: "length ?z = length q" by (simp add: np_zeros3_def)
  have "c_hessian p q = run_hook (\<lambda>k b. Some (add_matrix b k (h q k))) [0..<length q] ?z"
    unfolding c_hessian_def using assms lz by (intro run_hook_adds_hessian) auto
  also have "\<dots> = Some (map (\<lambda>k. map (\<lambda>i. map (\<lambda>j. ?z ! k ! i ! j + h q k i j)
                        [0..<length (?z ! k ! i)]) [0..<length (?z ! k)])
                        [0..<length q] @ drop (length q) ?z)"
    using lz by (intro matrices_added) simp
  also have "\<dots> = Some (map (\<lambda>k. map (\<lambda>i. map (\<lambda>j. h q k i j) [0..<shape1 q]) [0..<shape1 q])
                        [0..<length q])"
    using lz by (simp add: np_zeros3_def np_zeros2_def np_zeros1_def cong: map_cong)
  finally show ?thesis .
qed

lemma fold_add_upt:
  "fold (\<lambda>i v. v + f i) [0..<m] (a::real) = a + sum_list (map f [0..<m])"
  by (induction m) simp_all

lemma fold_update_upt:
  "m \<le> length buf \<Longrightarrow>
   fold (\<lambda>k b. b[k := f k]) [0..<m] buf = map f [0..<m] @ drop m buf"
proof (induction m)
  case 0
  then show ?case by simp
next
  case (Suc m)
  have dr: "drop m buf = buf ! m # drop (Suc m) buf"
    using Suc.prems by (simp add: Cons_nth_drop_Suc)
  have "(map f [0..<m] @ drop m buf)[m := f m] = map f [0..<m] @ f m # drop (Suc m) buf"
    unfolding dr using list_update_length [of "map f [0..<m]" "buf ! m" "drop (Suc m) buf" "f m"]
    by simp
  then show ?case using Suc by simp
qed

lemma map_children: "map (\<lambda>i. f (ps ! i)) [0..<length ps] = map f ps"
proof -
  have "map f ps = map f (map ((!) ps) [0..<length ps])" by (simp only: map_nth)
  then show ?thesis by (simp add: comp_def)
qed

lemma c_value_zeros:
  "c_value p q (np_zeros1 (length q)) = Some (map (value_at p q) [0..<length q])"
  by (simp add: c_value_def np_zeros1_def fold_update_upt)

lemma c_mass_enclosed_eq:
  "c_mass_enclosed p q = map (mass_enclosed_at p q (G_attr p)) [0..<length q]"
  by (simp add: c_mass_enclosed_def np_zeros1_def fold_update_upt)

lemma sum1_outputs:
  "sum1 m (map (\<lambda>p. map (f p) [0..<m]) ps) = map (\<lambda>k. sum_list (map (\<lambda>p. f p k) ps)) [0..<m]"
  unfolding sum1_def by (rule map_cong [OF refl]) (simp add: comp_def)

lemma sum2_outputs:
  "sum2 m d (map (\<lambda>p. map (\<lambda>k. map (f p k) [0..<d]) [0..<m]) ps) =
     map (\<lambda>k. map (\<lambda>j. sum_list (map (\<lambda>p. f p k j) ps)) [0..<d]) [0..<m]"
  unfolding sum2_def
  by (rule map_cong [OF refl], rule map_cong [OF refl]) (simp add: comp_def)

lemma sum3_outputs:
  "sum3 m d (map (\<lambda>p. map (\<lambda>k. map (\<lambda>i. map (f p k i) [0..<d]) [0..<d]) [0..<m]) ps) =
     map (\<lambda>k. map (\<lambda>i. map (\<lambda>j. sum_list (map (\<lambda>p. f p k i j) ps)) [0..<d]) [0..<d]) [0..<m]"
  unfolding sum3_def
  by (rule map_cong [OF refl], rule map_cong [OF refl], rule map_cong [OF refl])
    (simp add: comp_def)

text \<open>A composite that the constructor returned, with \<^verbatim>\<open>G\<close> assigned afterwards.\<close>

lemma constructed_children:
  assumes "composite_init ps = Inr c0" "c = c0\<lparr>G_comp := g\<rparr>"
  shows "ninstances c = length ps" "\<And>i. i < length ps \<Longrightarrow> child c i = ps ! i" "G_comp c = g"
proof -
  have le: "length ps \<le> obj_list_size"
  proof (rule ccontr)
    assume "\<not> length ps \<le> obj_list_size"
    then have "composite_init ps = Inl OutOfBounds" by (intro composite_init_overflow) simp
    with assms(1) show False by simp
  qed
  have c0: "c0 = \<lparr>py_instances = ps, ninstances = length ps,
          obj_list = (\<lambda>i. if i < length ps then Some (ps ! i) else None), G_comp = 0\<rparr>"
    using assms(1) composite_init_ok [OF le] by simp
  show "ninstances c = length ps" by (simp add: assms(2) c0)
  show "G_comp c = g" by (simp add: assms(2))
  show "child c i = ps ! i" if "i < length ps" for i
    using that by (simp add: assms(2) c0 child_def)
qed

lemma composite_value_at_sum:
  assumes "composite_init ps = Inr c0" "c = c0\<lparr>G_comp := g\<rparr>"
  shows "composite_value_at c q k = sum_list (map (\<lambda>p. value_at p q k) ps)"
proof -
  have "map (\<lambda>i. value_at (child c i) q k) [0..<length ps] =
      map (\<lambda>i. value_at (ps ! i) q k) [0..<length ps]"
    by (rule map_cong [OF refl]) (simp add: constructed_children(2) [OF assms])
  then show ?thesis
    by (simp add: composite_value_at_def constructed_children(1) [OF assms] fold_add_upt
        map_children [of "\<lambda>p. value_at p q k"])
qed

lemma composite_mass_enclosed_at_sum:
  assumes "composite_init ps = Inr c0" "c = c0\<lparr>G_comp := g\<rparr>"
  shows "composite_mass_enclosed_at c q Gee k = sum_list (map (\<lambda>p. mass_enclosed_at p q Gee k) ps)"
proof -
  have "map (\<lambda>i. mass_enclosed_at (child c i) q Gee k) [0..<length ps] =
      map (\<lambda>i. mass_enclosed_at (ps ! i) q Gee k) [0..<length ps]"
    by (rule map_cong [OF refl]) (simp add: constructed_children(2) [OF assms])
  then show ?thesis
    by (simp add: composite_mass_enclosed_at_def constructed_children(1) [OF assms] fold_add_upt
        map_children [of "\<lambda>p. mass_enclosed_at p q Gee k"])
qed

lemma composite_adds_gradient:
  assumes "composite_init ps = Inr c0" "c = c0\<lparr>G_comp := g\<rparr>"
    and "\<forall>p\<in>set ps. adds_gradient p (G p)"
  shows "adds_gradient (as_cpotential c) (\<lambda>q k j. sum_list (map (\<lambda>p. G p q k j) ps))"
  unfolding adds_gradient_def
proof (intro allI impI)
  fix q :: array2 and buf :: array2 and k :: nat
  assume k: "k < length buf"
  have "run_hook (\<lambda>i b. gradient_at (child c i) q b k) [0..<length ps] buf =
      run_hook (\<lambda>i b. gradient_at (ps ! i) q b k) [0..<length ps] buf"
    by (rule run_hook_cong) (simp add: constructed_children(2) [OF assms(1,2)])
  then show "gradient_at (as_cpotential c) q buf k =
      Some (add_row buf k (\<lambda>j. sum_list (map (\<lambda>p. G p q k j) ps)))"
    using children_add_rows [OF assms(3) k]
    by (simp add: as_cpotential_def composite_gradient_at_def
        constructed_children(1) [OF assms(1,2)])
qed

lemma composite_adds_hessian:
  assumes "composite_init ps = Inr c0" "c = c0\<lparr>G_comp := g\<rparr>"
    and "\<forall>p\<in>set ps. adds_hessian p (H p)"
  shows "adds_hessian (as_cpotential c) (\<lambda>q k i j. sum_list (map (\<lambda>p. H p q k i j) ps))"
  unfolding adds_hessian_def
proof (intro allI impI)
  fix q :: array2 and buf :: array3 and k :: nat
  assume k: "k < length buf"
  have "run_hook (\<lambda>i b. hessian_at (child c i) q b k) [0..<length ps] buf =
      run_hook (\<lambda>i b. hessian_at (ps ! i) q b k) [0..<length ps] buf"
    by (rule run_hook_cong) (simp add: constructed_children(2) [OF assms(1,2)])
  then show "hessian_at (as_cpotential c) q buf k =
      Some (add_matrix buf k (\<lambda>i j. sum_list (map (\<lambda>p. H p q k i j) ps)))"
    using children_add_matrices [OF assms(3) k]
    by (simp add: as_cpotential_def composite_hessian_at_def
        constructed_children(1) [OF assms(1,2)])
qed

lemma composite_value_output:
  assumes "composite_init ps = Inr c0" "c = c0\<lparr>G_comp := g\<rparr>"
  shows "\<exists>outs. map (\<lambda>p. c_value p q (np_zeros1 (length q))) ps = map Some outs \<and>
     c_value (as_cpotential c) q (np_zeros1 (length q)) = Some (sum1 (length q) outs)"
proof (intro exI conjI)
  show "map (\<lambda>p. c_value p q (np_zeros1 (length q))) ps =
      map Some (map (\<lambda>p. map (value_at p q) [0..<length q]) ps)"
    by (simp add: c_value_zeros comp_def)
  show "c_value (as_cpotential c) q (np_zeros1 (length q)) =
      Some (sum1 (length q) (map (\<lambda>p. map (value_at p q) [0..<length q]) ps))"
    unfolding sum1_outputs c_value_zeros
    by (simp add: as_cpotential_def composite_value_at_sum [OF assms])
qed

lemma composite_gradient_output:
  assumes "composite_init ps = Inr c0" "c = c0\<lparr>G_comp := g\<rparr>"
    and "\<forall>p\<in>set ps. accumulates_gradient p"
  shows "\<exists>outs. map (\<lambda>p. c_gradient p q) ps = map Some outs \<and>
     c_gradient (as_cpotential c) q = Some (sum2 (length q) (shape1 q) outs)"
proof -
  from assms(3) obtain G where G: "\<forall>p\<in>set ps. adds_gradient p (G p)"
    unfolding accumulates_gradient_def by metis
  let ?outs = "map (\<lambda>p. map (\<lambda>k. map (G p q k) [0..<shape1 q]) [0..<length q]) ps"
  have 1: "map (\<lambda>p. c_gradient p q) ps = map Some ?outs"
    using G by (simp add: c_gradient_adds)
  have 2: "c_gradient (as_cpotential c) q = Some (sum2 (length q) (shape1 q) ?outs)"
    unfolding sum2_outputs
    by (rule c_gradient_adds [OF composite_adds_gradient [OF assms(1,2) G]])
  from 1 2 show ?thesis by blast
qed

lemma composite_hessian_output:
  assumes "composite_init ps = Inr c0" "c = c0\<lparr>G_comp := g\<rparr>"
    and "\<forall>p\<in>set ps. accumulates_hessian p"
  shows "\<exists>outs. map (\<lambda>p. c_hessian p q) ps = map Some outs \<and>
     c_hessian (as_cpotential c) q = Some (sum3 (length q) (shape1 q) outs)"
proof -
  from assms(3) obtain H where H: "\<forall>p\<in>set ps. adds_hessian p (H p)"
    unfolding accumulates_hessian_def by metis
  let ?outs = "map (\<lambda>p. map (\<lambda>k. map (\<lambda>i. map (H p q k i) [0..<shape1 q]) [0..<shape1 q])
                          [0..<length q]) ps"
  have 1: "map (\<lambda>p. c_hessian p q) ps = map Some ?outs"
    using H by (simp add: c_hessian_adds)
  have 2: "c_hessian (as_cpotential c) q = Some (sum3 (length q) (shape1 q) ?outs)"
    unfolding sum3_outputs
    by (rule c_hessian_adds [OF composite_adds_hessian [OF assms(1,2) H]])
  from 1 2 show ?thesis by blast
qed

lemma composite_mass_output:
  assumes "composite_init ps = Inr c0" "c = c0\<lparr>G_comp := g\<rparr>"
  shows "c_mass_enclosed (as_cpotential c) q =
     sum1 (length q) (map (\<lambda>p. map (mass_enclosed_at p q g) [0..<length q]) ps)"
  unfolding sum1_outputs c_mass_enclosed_eq
  by (simp add: as_cpotential_def composite_mass_enclosed_at_sum [OF assms]
      constructed_children(3) [OF assms])

lemma composite_mass_output_same_G:
  assumes "composite_init ps = Inr c0" "c = c0\<lparr>G_comp := g\<rparr>" "\<forall>p\<in>set ps. G_attr p = g"
  shows "c_mass_enclosed (as_cpotential c) q = sum1 (length q) (map (\<lambda>p. c_mass_enclosed p q) ps)"
proof -
  have "map (\<lambda>p. c_mass_enclosed p q) ps =
      map (\<lambda>p. map (mass_enclosed_at p q g) [0..<length q]) ps"
    using assms(3) by (intro map_cong refl) (simp add: c_mass_enclosed_eq)
  then show ?thesis by (simp only: composite_mass_output [OF assms(1,2)])
qed

lemma composite_empty_output:
  assumes "composite_init [] = Inr c0" "c = c0\<lparr>G_comp := g\<rparr>"
  shows "c_value (as_cpotential c) q (np_zeros1 (length q)) = Some (np_zeros1 (length q)) \<and>
     c_gradient (as_cpotential c) q = Some (np_zeros2 (length q) (shape1 q)) \<and>
     c_hessian (as_cpotential c) q = Some (np_zeros3 (length q) (shape1 q)) \<and>
     c_mass_enclosed (as_cpotential c) q = np_zeros1 (length q)"
proof -
  have z1: "sum1 m [] = np_zeros1 m" for m
    by (simp add: sum1_def np_zeros1_def map_replicate_const)
  have z2: "sum2 m d [] = np_zeros2 m d" for m d
    by (simp add: sum2_def np_zeros2_def np_zeros1_def map_replicate_const)
  have z3: "sum3 m d [] = np_zeros3 m d" for m d
    by (simp add: sum3_def np_zeros3_def np_zeros2_def np_zeros1_def map_replicate_const)
  show ?thesis
    using composite_value_output [OF assms, of q] composite_gradient_output [OF assms, of q]
      composite_hessian_output [OF assms, of q] composite_mass_output [OF assms, of q]
    by (simp add: z1 z2 z3)
qed

lemma accumulating_adds_gradient: "adds_gradient (accumulating g v dv ddv) dv"
  by (simp add: adds_gradient_def accumulating_def potential_subclass_def)

lemma accumulating_adds_hessian: "adds_hessian (accumulating g v dv ddv) ddv"
  by (simp add: adds_hessian_def accumulating_def potential_subclass_def)

lemma accumulating_accumulates:
  "accumulates_gradient (accumulating g v dv ddv)" "accumulates_hessian (accumulating g v dv ddv)"
  unfolding accumulates_gradient_def accumulates_hessian_def
  using accumulating_adds_gradient accumulating_adds_hessian by blast+

text \<open>
  Claim C5, amended (the claim has the four outputs of every composite equal the sums
  of the outputs of its children). For a composite \<open>c\<close> that the constructor returned
  for the children \<open>ps\<close>, with \<^verbatim>\<open>G\<close> set to \<open>g\<close>, and every batch \<open>q\<close>: the value is the
  elementwise sum of the values of the children; the gradient and the Hessian are the
  sums of theirs when the hook of every child adds to the buffer it is given; the
  enclosed mass is the sum of the estimates of the children taken with the \<^verbatim>\<open>G\<close> of
  the composite, which are their own outputs when they have that same \<^verbatim>\<open>G\<close>; and with
  no child the four outputs are zero.
\<close>

theorem composite_sums:
  assumes "composite_init ps = Inr c0" and "c = c0\<lparr>G_comp := g\<rparr>"
  shows
    "(\<exists>outs. map (\<lambda>p. c_value p q (np_zeros1 (length q))) ps = map Some outs \<and>
        c_value (as_cpotential c) q (np_zeros1 (length q)) = Some (sum1 (length q) outs)) \<and>
     ((\<forall>p\<in>set ps. accumulates_gradient p) \<longrightarrow>
        (\<exists>outs. map (\<lambda>p. c_gradient p q) ps = map Some outs \<and>
           c_gradient (as_cpotential c) q = Some (sum2 (length q) (shape1 q) outs))) \<and>
     ((\<forall>p\<in>set ps. accumulates_hessian p) \<longrightarrow>
        (\<exists>outs. map (\<lambda>p. c_hessian p q) ps = map Some outs \<and>
           c_hessian (as_cpotential c) q = Some (sum3 (length q) (shape1 q) outs))) \<and>
     c_mass_enclosed (as_cpotential c) q =
        sum1 (length q) (map (\<lambda>p. map (mass_enclosed_at p q g) [0..<length q]) ps) \<and>
     ((\<forall>p\<in>set ps. G_attr p = g) \<longrightarrow>
        c_mass_enclosed (as_cpotential c) q = sum1 (length q) (map (\<lambda>p. c_mass_enclosed p q) ps)) \<and>
     (ps = [] \<longrightarrow>
        c_value (as_cpotential c) q (np_zeros1 (length q)) = Some (np_zeros1 (length q)) \<and>
        c_gradient (as_cpotential c) q = Some (np_zeros2 (length q) (shape1 q)) \<and>
        c_hessian (as_cpotential c) q = Some (np_zeros3 (length q) (shape1 q)) \<and>
        c_mass_enclosed (as_cpotential c) q = np_zeros1 (length q))"
proof (intro conjI impI)
  show "\<exists>outs. map (\<lambda>p. c_value p q (np_zeros1 (length q))) ps = map Some outs \<and>
        c_value (as_cpotential c) q (np_zeros1 (length q)) = Some (sum1 (length q) outs)"
    by (rule composite_value_output [OF assms])
  show "c_mass_enclosed (as_cpotential c) q =
        sum1 (length q) (map (\<lambda>p. map (mass_enclosed_at p q g) [0..<length q]) ps)"
    by (rule composite_mass_output [OF assms])
next
  assume "\<forall>p\<in>set ps. accumulates_gradient p"
  then show "\<exists>outs. map (\<lambda>p. c_gradient p q) ps = map Some outs \<and>
           c_gradient (as_cpotential c) q = Some (sum2 (length q) (shape1 q) outs)"
    by (rule composite_gradient_output [OF assms])
next
  assume "\<forall>p\<in>set ps. accumulates_hessian p"
  then show "\<exists>outs. map (\<lambda>p. c_hessian p q) ps = map Some outs \<and>
           c_hessian (as_cpotential c) q = Some (sum3 (length q) (shape1 q) outs)"
    by (rule composite_hessian_output [OF assms])
next
  assume "\<forall>p\<in>set ps. G_attr p = g"
  then show "c_mass_enclosed (as_cpotential c) q = sum1 (length q) (map (\<lambda>p. c_mass_enclosed p q) ps)"
    by (rule composite_mass_output_same_G [OF assms])
next
  assume e: "ps = []"
  show "c_value (as_cpotential c) q (np_zeros1 (length q)) = Some (np_zeros1 (length q))"
    "c_gradient (as_cpotential c) q = Some (np_zeros2 (length q) (shape1 q))"
    "c_hessian (as_cpotential c) q = Some (np_zeros3 (length q) (shape1 q))"
    "c_mass_enclosed (as_cpotential c) q = np_zeros1 (length q)"
    using composite_empty_output [OF assms [unfolded e], of q] by simp_all
qed

lemma shape1_three_positions: "shape1 three_positions = 3" "length three_positions = 3"
  by (simp_all add: three_positions_def)

lemma gradient_harmonic:
  "c_gradient harmonic three_positions = Some [[1, 0, 0], [0, 2, 0], [0, 0, 3]]"
  by (simp add: c_gradient_adds [OF accumulating_adds_gradient] harmonic_def
      shape1_three_positions upt3) (simp add: three_positions_def)

lemma gradient_uniform:
  "c_gradient uniform three_positions = Some [[1, 0, 0], [1, 0, 0], [1, 0, 0]]"
  by (simp add: c_gradient_adds [OF accumulating_adds_gradient] uniform_def
      shape1_three_positions upt3)

theorem composite_sums_witness:
  "\<exists>c0 c1.
     composite_init [harmonic, uniform] = Inr c0 \<and>
     c_gradient (as_cpotential (c0\<lparr>G_comp := 1\<rparr>)) three_positions =
       Some [[2, 0, 0], [1, 2, 0], [1, 0, 3]] \<and>
     c_mass_enclosed (as_cpotential (c0\<lparr>G_comp := 1\<rparr>)) three_positions =
       sum1 3 [c_mass_enclosed harmonic three_positions, c_mass_enclosed uniform three_positions] \<and>
     composite_init [] = Inr c1 \<and>
     c_gradient (as_cpotential (c1\<lparr>G_comp := 1\<rparr>)) three_positions =
       Some [[0, 0, 0], [0, 0, 0], [0, 0, 0]]"
proof -
  obtain c0 where c0: "composite_init [harmonic, uniform] = Inr c0"
    using composite_init_ok [of "[harmonic, uniform]"] by (simp add: obj_list_size_def)
  obtain c1 where c1: "composite_init [] = Inr c1"
    using composite_init_ok [of "[]"] by (simp add: obj_list_size_def)
  have acc: "\<forall>p\<in>set [harmonic, uniform]. accumulates_gradient p"
    by (simp add: harmonic_def uniform_def accumulating_accumulates)
  have sameG: "\<forall>p\<in>set [harmonic, uniform]. G_attr p = 1"
    by (simp add: harmonic_def uniform_def accumulating_def potential_subclass_def)
  from composite_sums [where g = 1 and q = three_positions, OF c0 refl] acc sameG obtain outs where
    outs: "map (\<lambda>p. c_gradient p three_positions) [harmonic, uniform] = map Some outs"
    and g: "c_gradient (as_cpotential (c0\<lparr>G_comp := 1\<rparr>)) three_positions =
        Some (sum2 (length three_positions) (shape1 three_positions) outs)"
    and m: "c_mass_enclosed (as_cpotential (c0\<lparr>G_comp := 1\<rparr>)) three_positions =
        sum1 (length three_positions) (map (\<lambda>p. c_mass_enclosed p three_positions) [harmonic, uniform])"
    by blast
  have "outs = [[[1, 0, 0], [0, 2, 0], [0, 0, 3]], [[1, 0, 0], [1, 0, 0], [1, 0, 0]]]"
    using outs by (auto simp: gradient_harmonic gradient_uniform)
  then have g': "c_gradient (as_cpotential (c0\<lparr>G_comp := 1\<rparr>)) three_positions =
       Some [[2, 0, 0], [1, 2, 0], [1, 0, 3]]"
    using g by (simp add: shape1_three_positions sum2_def upt3)
  have "c_gradient (as_cpotential (c1\<lparr>G_comp := 1\<rparr>)) three_positions =
       Some (np_zeros2 (length three_positions) (shape1 three_positions))"
    using composite_sums [where g = 1 and q = three_positions, OF c1 refl] by blast
  then have z: "c_gradient (as_cpotential (c1\<lparr>G_comp := 1\<rparr>)) three_positions =
       Some [[0, 0, 0], [0, 0, 0], [0, 0, 0]]"
    by (simp add: shape1_three_positions np_zeros2_def np_zeros1_def eval_nat_numeral)
  show ?thesis
    using c0 c1 g' m z by (simp add: shape1_three_positions)
qed

text \<open>
  Claim C5 as stated fails: beside a child that overrides \<^verbatim>\<open>_value\<close> only, whose
  inherited hook sets rows 0 to 2 of the buffer to zero, the gradient of the harmonic
  well is lost, and the composite returns zeros where the sum of the two outputs is
  the gradient of the well.
\<close>

theorem composite_gradient_counterexample:
  "composite_init [harmonic, value_only 1 default_value_at] = Inr well_and_void \<and>
   c_gradient (as_cpotential well_and_void) three_positions =
     Some [[0, 0, 0], [0, 0, 0], [0, 0, 0]] \<and>
   c_gradient harmonic three_positions = Some [[1, 0, 0], [0, 2, 0], [0, 0, 3]] \<and>
   c_gradient (value_only 1 default_value_at) three_positions =
     Some [[0, 0, 0], [0, 0, 0], [0, 0, 0]] \<and>
   sum2 3 3 [[[1, 0, 0], [0, 2, 0], [0, 0, 3]], [[0, 0, 0], [0, 0, 0], [0, 0, 0]]] =
     [[1, 0, 0], [0, 2, 0], [0, 0, 3]]"
proof (intro conjI)
  show "composite_init [harmonic, value_only 1 default_value_at] = Inr well_and_void"
    using composite_init_ok [of "[harmonic, value_only 1 default_value_at]"]
    by (simp add: obj_list_size_def well_and_void_def eval_nat_numeral)
  show "c_gradient (as_cpotential well_and_void) three_positions =
     Some [[0, 0, 0], [0, 0, 0], [0, 0, 0]]"
    by (simp add: c_gradient_def as_cpotential_def composite_gradient_at_def well_and_void_def
        child_def harmonic_def accumulating_def value_only_def potential_subclass_def
        default_gradient_at_def add_row_def three_positions_def np_zeros2_def np_zeros1_def
        upt_rec eval_nat_numeral)
  show "c_gradient harmonic three_positions = Some [[1, 0, 0], [0, 2, 0], [0, 0, 3]]"
    by (rule gradient_harmonic)
  show "c_gradient (value_only 1 default_value_at) three_positions =
     Some [[0, 0, 0], [0, 0, 0], [0, 0, 0]]"
    by (simp add: c_gradient_def value_only_def potential_subclass_def default_gradient_at_def
        three_positions_def np_zeros2_def np_zeros1_def upt_rec eval_nat_numeral)
  show "sum2 3 3 [[[1, 0, 0], [0, 2, 0], [0, 0, 3]], [[0, 0, 0], [0, 0, 0], [0, 0, 0]]] =
     [[1, 0, 0], [0, 2, 0], [0, 0, 3]]"
    by (simp add: sum2_def upt3)
qed

end
